theory Spec2Isabelle
  imports Main "HOL-Library.Word" "HOL-Library.Multiset"
begin

section \<open>The JavaScript values the program computes with\<close>

text \<open>
  The QR registration app exists twice in the repository: as an Expo app with
  a scanner tab and a records tab, and as a browser app (\<^verbatim>\<open>app.js\<close>). The source
  file \<^verbatim>\<open>app/(tabs)/records.tsx\<close> holds the three programs one after the other:
  the records screen from line 1, the scanner screen from line 583 and
  \<^verbatim>\<open>app.js\<close> from line 1092; the line numbers below are lines of that file.
  All three are JavaScript, so the embedding starts with the few platform
  values they use.

  A string is the list of its UTF-16 code units. \<open>lit\<close> writes a string
  literal of the source.
\<close>

type_synonym jsstring = "16 word list"

definition lit :: "string \<Rightarrow> jsstring" where
  "lit s = map of_char s"

text \<open>
  \<^verbatim>\<open>String.prototype.trim\<close> removes WhiteSpace and LineTerminator code units
  (ECMA-262, 22.1.3.32) from both ends.
\<close>

definition isWhiteSpace :: "16 word \<Rightarrow> bool" where
  "isWhiteSpace c \<longleftrightarrow>
     c = 0x09 \<or> c = 0x0A \<or> c = 0x0B \<or> c = 0x0C \<or> c = 0x0D \<or> c = 0x20 \<or> c = 0xA0
     \<or> c = 0x1680 \<or> (0x2000 \<le> c \<and> c \<le> 0x200A) \<or> c = 0x2028 \<or> c = 0x2029
     \<or> c = 0x202F \<or> c = 0x205F \<or> c = 0x3000 \<or> c = 0xFEFF"

definition trim :: "jsstring \<Rightarrow> jsstring" where
  "trim s = rev (dropWhile isWhiteSpace (rev (dropWhile isWhiteSpace s)))"

text \<open>\<^verbatim>\<open>a || b\<close> on strings: the empty string is falsy.\<close>

definition or_else :: "jsstring \<Rightarrow> jsstring \<Rightarrow> jsstring" where
  "or_else a b = (if a = [] then b else a)"

text \<open>
  \<^verbatim>\<open>s.replace(/"/g, '""')\<close>: every double quote (code unit 0x22) is replaced
  by two.
\<close>

fun replace_quotes :: "jsstring \<Rightarrow> jsstring" where
  "replace_quotes [] = []"
| "replace_quotes (c # cs) =
     (if c = 0x22 then 0x22 # 0x22 # replace_quotes cs else c # replace_quotes cs)"

text \<open>\<^verbatim>\<open>rows.join('\n')\<close>.\<close>

fun join :: "jsstring \<Rightarrow> jsstring list \<Rightarrow> jsstring" where
  "join sep [] = []"
| "join sep [x] = x"
| "join sep (x # y # ys) = x @ sep @ join sep (y # ys)"

text \<open>
  A number is an integer or NaN (\<open>None\<close>): the program only does integer
  arithmetic on millisecond counts and calendar fields, all far below
  \<open>2^53\<close>. \<^verbatim>\<open>Number.prototype.toString\<close> prints an integer in decimal and NaN as
  \<^verbatim>\<open>NaN\<close>.
\<close>

type_synonym number = "int option"

fun digits :: "nat \<Rightarrow> jsstring" where
  "digits n = (if n < 10 then [0x30 + of_nat n]
               else digits (n div 10) @ [0x30 + of_nat (n mod 10)])"

declare digits.simps [simp del]

definition toString :: "number \<Rightarrow> jsstring" where
  "toString x = (case x of None \<Rightarrow> lit ''NaN''
     | Some i \<Rightarrow> if i < 0 then lit ''-'' @ digits (nat (- i)) else digits (nat i))"

text \<open>\<^verbatim>\<open>s.padStart(n, '0')\<close>.\<close>

definition padStart :: "nat \<Rightarrow> jsstring \<Rightarrow> jsstring" where
  "padStart n s = replicate (n - length s) 0x30 @ s"

text \<open>
  \<^verbatim>\<open>x + k\<close>, \<^verbatim>\<open>x >= k\<close>, \<^verbatim>\<open>x % k\<close> and the truthiness of a number. NaN
  propagates through arithmetic, compares false and is falsy; \<^verbatim>\<open>%\<close> takes the
  sign of the dividend.
\<close>

definition num_add :: "number \<Rightarrow> int \<Rightarrow> number" where
  "num_add x k = map_option (\<lambda>i. i + k) x"

definition num_ge :: "number \<Rightarrow> int \<Rightarrow> bool" where
  "num_ge x k = (case x of None \<Rightarrow> False | Some i \<Rightarrow> i \<ge> k)"

definition num_rem :: "number \<Rightarrow> int \<Rightarrow> number" where
  "num_rem x k = map_option (\<lambda>i. sgn i * (\<bar>i\<bar> mod \<bar>k\<bar>)) x"

definition truthy :: "number \<Rightarrow> bool" where
  "truthy x = (case x of None \<Rightarrow> False | Some i \<Rightarrow> i \<noteq> 0)"

section \<open>Dates\<close>

text \<open>
  A \<^verbatim>\<open>Date\<close> object is its time value: milliseconds since the epoch, or NaN for
  an invalid date. \<^verbatim>\<open>new Date(ms)\<close> applies TimeClip: a time value beyond
  \<open>8.64 * 10^15\<close> in magnitude is invalid.
\<close>

type_synonym date = "int option"

definition timeClip :: "int \<Rightarrow> date" where
  "timeClip t = (if \<bar>t\<bar> \<le> 8640000000000000 then Some t else None)"

text \<open>
  What the program takes from its host: the offset of the local time zone
  (\<^verbatim>\<open>getTimezoneOffset\<close>, minutes to add to local time to get UTC, for a date
  with the given time value) and \<^verbatim>\<open>Date.parse\<close> (NaN is \<open>None\<close>), which
  ECMA-262 leaves to the implementation outside its own date-time format.
\<close>

record host =
  tzOffset :: "int \<Rightarrow> int"
  dateParse :: "jsstring \<Rightarrow> int option"

definition newDate :: "host \<Rightarrow> jsstring \<Rightarrow> date" where
  "newDate h s = Option.bind (dateParse h s) timeClip"

definition localTime :: "host \<Rightarrow> int \<Rightarrow> int" where
  "localTime h t = t - tzOffset h t * 60000"

text \<open>
  The calendar fields of a time value (ECMA-262, 21.4.1): the proleptic
  Gregorian date of the day number, computed era by era (an era is 400 years,
  146097 days, starting on 1 March).
\<close>

definition civil :: "int \<Rightarrow> int \<times> int \<times> int" where
  "civil days =
     (let z = days + 719468;
          era = z div 146097;
          doe = z mod 146097;
          yoe = (doe - doe div 1460 + doe div 36524 - doe div 146096) div 365;
          doy = doe - (365 * yoe + yoe div 4 - yoe div 100);
          mp = (5 * doy + 2) div 153;
          d = doy - (153 * mp + 2) div 5 + 1;
          m = (if mp < 10 then mp + 3 else mp - 9);
          y = yoe + era * 400 + (if m \<le> 2 then 1 else 0)
      in (y, m - 1, d))"

definition yearFromTime :: "int \<Rightarrow> int" where
  "yearFromTime t = fst (civil (t div 86400000))"

definition monthFromTime :: "int \<Rightarrow> int" where
  "monthFromTime t = fst (snd (civil (t div 86400000)))"

definition dateFromTime :: "int \<Rightarrow> int" where
  "dateFromTime t = snd (snd (civil (t div 86400000)))"

definition hourFromTime :: "int \<Rightarrow> int" where
  "hourFromTime t = (t div 3600000) mod 24"

definition minFromTime :: "int \<Rightarrow> int" where
  "minFromTime t = (t div 60000) mod 60"

definition secFromTime :: "int \<Rightarrow> int" where
  "secFromTime t = (t div 1000) mod 60"

definition msFromTime :: "int \<Rightarrow> int" where
  "msFromTime t = t mod 1000"

text \<open>The getters read the fields of the local time; on an invalid date they return NaN.\<close>

definition getFullYear :: "host \<Rightarrow> date \<Rightarrow> number" where
  "getFullYear h d = map_option (\<lambda>t. yearFromTime (localTime h t)) d"

definition getMonth :: "host \<Rightarrow> date \<Rightarrow> number" where
  "getMonth h d = map_option (\<lambda>t. monthFromTime (localTime h t)) d"

definition getDate :: "host \<Rightarrow> date \<Rightarrow> number" where
  "getDate h d = map_option (\<lambda>t. dateFromTime (localTime h t)) d"

definition getHours :: "host \<Rightarrow> date \<Rightarrow> number" where
  "getHours h d = map_option (\<lambda>t. hourFromTime (localTime h t)) d"

definition getMinutes :: "host \<Rightarrow> date \<Rightarrow> number" where
  "getMinutes h d = map_option (\<lambda>t. minFromTime (localTime h t)) d"

definition getSeconds :: "host \<Rightarrow> date \<Rightarrow> number" where
  "getSeconds h d = map_option (\<lambda>t. secFromTime (localTime h t)) d"

text \<open>
  \<^verbatim>\<open>toISOString\<close> prints the UTC fields as \<^verbatim>\<open>YYYY-MM-DDTHH:mm:ss.sssZ\<close>, the year
  with a sign and six digits outside 0..9999, and throws a RangeError on an
  invalid date.
\<close>

datatype error = RangeError

definition pad :: "nat \<Rightarrow> int \<Rightarrow> jsstring" where
  "pad n i = padStart n (digits (nat i))"

definition isoYear :: "int \<Rightarrow> jsstring" where
  "isoYear y = (if 0 \<le> y \<and> y \<le> 9999 then pad 4 y
                else if y < 0 then lit ''-'' @ pad 6 (- y) else lit ''+'' @ pad 6 y)"

definition toISOString :: "date \<Rightarrow> error + jsstring" where
  "toISOString d = (case d of None \<Rightarrow> Inl RangeError
     | Some t \<Rightarrow> Inr (isoYear (yearFromTime t) @ lit ''-'' @ pad 2 (monthFromTime t + 1)
         @ lit ''-'' @ pad 2 (dateFromTime t) @ lit ''T'' @ pad 2 (hourFromTime t)
         @ lit '':'' @ pad 2 (minFromTime t) @ lit '':'' @ pad 2 (secFromTime t)
         @ lit ''.'' @ pad 3 (msFromTime t) @ lit ''Z''))"


text \<open>
  One host parser, for concrete runs: the UTC date-time forms
  \<^verbatim>\<open>YYYY-MM-DDTHH:mm:ssZ\<close> and \<^verbatim>\<open>YYYY-MM-DDTHH:mm:ss.sssZ\<close> of the ECMA-262
  date-time string format (21.4.1.32), which every engine reads the same
  way. \<open>daysFromCivil\<close> is the day number of a calendar date.
\<close>

definition isDigit :: "16 word \<Rightarrow> bool" where
  "isDigit c \<longleftrightarrow> 0x30 \<le> c \<and> c \<le> 0x39"

definition decimal :: "jsstring \<Rightarrow> int option" where
  "decimal s = (if s \<noteq> [] \<and> list_all isDigit s
                then Some (foldl (\<lambda>a c. 10 * a + (uint c - 48)) 0 s) else None)"

definition daysFromCivil :: "int \<Rightarrow> int \<Rightarrow> int \<Rightarrow> int" where
  "daysFromCivil y m d =
     (let y' = (if m \<le> 2 then y - 1 else y);
          era = y' div 400;
          yoe = y' mod 400;
          doy = (153 * (if m > 2 then m - 3 else m + 9) + 2) div 5 + d - 1;
          doe = yoe * 365 + yoe div 4 - yoe div 100 + doy
      in era * 146097 + doe - 719468)"

definition daysInMonth :: "int \<Rightarrow> int \<Rightarrow> int" where
  "daysInMonth y m =
     (if m = 2 then (if y mod 4 = 0 \<and> (y mod 100 \<noteq> 0 \<or> y mod 400 = 0) then 29 else 28)
      else if m = 4 \<or> m = 6 \<or> m = 9 \<or> m = 11 then 30 else 31)"

definition isoFields :: "jsstring \<Rightarrow> (int \<times> int \<times> int \<times> int \<times> int \<times> int \<times> int) option" where
  "isoFields s =
     (if (length s = 20 \<or> length s = 24) \<and> s ! 4 = 0x2D \<and> s ! 7 = 0x2D \<and> s ! 10 = 0x54
         \<and> s ! 13 = 0x3A \<and> s ! 16 = 0x3A \<and> last s = 0x5A \<and> (length s = 20 \<or> s ! 19 = 0x2E)
      then
        (case (decimal (take 4 s), decimal (take 2 (drop 5 s)), decimal (take 2 (drop 8 s)),
               decimal (take 2 (drop 11 s)), decimal (take 2 (drop 14 s)),
               decimal (take 2 (drop 17 s)),
               if length s = 24 then decimal (take 3 (drop 20 s)) else Some 0) of
           (Some y, Some m, Some d, Some hh, Some mm, Some ss, Some ms) \<Rightarrow>
             Some (y, m, d, hh, mm, ss, ms)
         | _ \<Rightarrow> None)
      else None)"

definition isoParse :: "jsstring \<Rightarrow> int option" where
  "isoParse s =
     (case isoFields s of
        None \<Rightarrow> None
      | Some (y, m, d, hh, mm, ss, ms) \<Rightarrow>
          if 1 \<le> m \<and> m \<le> 12 \<and> 1 \<le> d \<and> d \<le> daysInMonth y m
             \<and> (hh \<le> 23 \<or> hh = 24 \<and> mm = 0 \<and> ss = 0 \<and> ms = 0) \<and> mm \<le> 59 \<and> ss \<le> 59
          then Some (daysFromCivil y m d * 86400000 + hh * 3600000 + mm * 60000 + ss * 1000 + ms)
          else None)"

text \<open>A host at a fixed offset from UTC (no daylight saving) with that parser.\<close>

definition fixedHost :: "int \<Rightarrow> host" where
  "fixedHost off = \<lparr>tzOffset = (\<lambda>_. off), dateParse = isoParse\<rparr>"

section \<open>TimeNormalizer: the two formatters\<close>

text \<open>
  \<^verbatim>\<open>formatDisplayTime\<close> and \<^verbatim>\<open>formatCSVTime\<close> of \<^verbatim>\<open>records.tsx\<close> (lines 67-122), and
  their namesakes in \<^verbatim>\<open>app.js\<close>, shift the instant and print the local fields
  of the shifted date. The printing is the same text in both files:
  \<open>displayString\<close> is lines 78-92, \<open>csvString\<close> lines 110-117.
  \<open>months[i]\<close> is \<^verbatim>\<open>undefined\<close> when \<open>i\<close> is NaN, which a template prints as
  \<^verbatim>\<open>undefined\<close>.
\<close>

definition months :: "jsstring list" where
  "months = map lit [''Jan'', ''Feb'', ''Mar'', ''Apr'', ''May'', ''Jun'',
                     ''Jul'', ''Aug'', ''Sep'', ''Oct'', ''Nov'', ''Dec'']"

definition monthName :: "number \<Rightarrow> jsstring" where
  "monthName i = (case i of None \<Rightarrow> lit ''undefined''
     | Some k \<Rightarrow> if 0 \<le> k \<and> k < 12 then months ! nat k else lit ''undefined'')"

definition ampmOf :: "number \<Rightarrow> jsstring" where
  "ampmOf hours = (if num_ge hours 12 then lit ''PM'' else lit ''AM'')"

definition hours12 :: "number \<Rightarrow> number" where
  "hours12 hours = (let hours = num_rem hours 12 in if truthy hours then hours else Some 12)"

definition displayString :: "host \<Rightarrow> date \<Rightarrow> jsstring" where
  "displayString h eatTime =
     (let month = monthName (getMonth h eatTime);
          day = getDate h eatTime;
          year = getFullYear h eatTime;
          hours = getHours h eatTime;
          minutes = padStart 2 (toString (getMinutes h eatTime));
          ampm = ampmOf hours;
          hours = hours12 hours
      in month @ lit '' '' @ toString day @ lit '', '' @ toString year @ lit '', ''
         @ toString hours @ lit '':'' @ minutes @ lit '' '' @ ampm @ lit '' EAT'')"

definition csvString :: "host \<Rightarrow> date \<Rightarrow> jsstring" where
  "csvString h eatTime =
     (let month = padStart 2 (toString (num_add (getMonth h eatTime) 1));
          day = padStart 2 (toString (getDate h eatTime));
          year = getFullYear h eatTime;
          hours = padStart 2 (toString (getHours h eatTime));
          minutes = padStart 2 (toString (getMinutes h eatTime));
          seconds = padStart 2 (toString (getSeconds h eatTime))
      in month @ lit ''/'' @ day @ lit ''/'' @ toString year @ lit '' '' @ hours @ lit '':''
         @ minutes @ lit '':'' @ seconds @ lit '' EAT'')"

text \<open>
  The argument is \<open>None\<close> for \<^verbatim>\<open>undefined\<close> or \<^verbatim>\<open>null\<close> (a stored record without
  the field); \<^verbatim>\<open>!timestamp\<close> holds for these and for the empty string. Nothing
  in the bodies can throw, so the \<^verbatim>\<open>catch\<close> branches are never taken.
\<close>

definition falsy :: "jsstring option \<Rightarrow> bool" where
  "falsy s = (case s of None \<Rightarrow> True | Some x \<Rightarrow> x = [])"

definition formatDisplayTime :: "host \<Rightarrow> jsstring option \<Rightarrow> jsstring" where
  "formatDisplayTime h timestamp =
     (if falsy timestamp then lit ''Unknown date''
      else case newDate h (the timestamp) of
             None \<Rightarrow> lit ''Invalid date''
           | Some t \<Rightarrow>
               let utcTime = t + tzOffset h t * 60000;
                   eatTime = timeClip (utcTime + 10800000)
               in displayString h eatTime)"

definition formatCSVTime :: "host \<Rightarrow> jsstring option \<Rightarrow> jsstring" where
  "formatCSVTime h timestamp =
     (if falsy timestamp then lit ''N/A''
      else case newDate h (the timestamp) of
             None \<Rightarrow> lit ''N/A''
           | Some t \<Rightarrow>
               let utcTime = t + tzOffset h t * 60000;
                   eatTime = timeClip (utcTime + 10800000)
               in csvString h eatTime)"

text \<open>
  \<^verbatim>\<open>app.js\<close> (lines 1453-1501): \<^verbatim>\<open>toEATTime\<close> does the shift without asking whether
  the date is valid (\<open>now\<close> is the clock, read when there is no timestamp),
  and the formatters print whatever it returns.
\<close>

definition toEATTime :: "host \<Rightarrow> int \<Rightarrow> jsstring option \<Rightarrow> date" where
  "toEATTime h now timestamp =
     (let date = (if falsy timestamp then timeClip now else newDate h (the timestamp))
      in case date of
           None \<Rightarrow> None
         | Some t \<Rightarrow> let utcTime = t + tzOffset h t * 60000 in timeClip (utcTime + 10800000))"

definition web_formatDisplayTime :: "host \<Rightarrow> int \<Rightarrow> jsstring option \<Rightarrow> jsstring" where
  "web_formatDisplayTime h now timestamp =
     (if falsy timestamp then lit ''Unknown date''
      else displayString h (toEATTime h now timestamp))"

definition web_formatCSVTime :: "host \<Rightarrow> int \<Rightarrow> jsstring option \<Rightarrow> jsstring" where
  "web_formatCSVTime h now timestamp =
     (if falsy timestamp then lit ''N/A''
      else csvString h (toEATTime h now timestamp))"


section \<open>Records and the sort of the listing\<close>

text \<open>
  \<^verbatim>\<open>interface QRRecord\<close> (\<^verbatim>\<open>records.tsx\<close>, line 25). The scanner screen never sets
  \<open>timezoneOffset\<close>; \<^verbatim>\<open>app.js\<close> stores 180 there.
\<close>

record QRRecord =
  qrcode :: jsstring
  name :: jsstring
  timestamp :: jsstring
  timezoneOffset :: "int option"

text \<open>
  The comparator of both listings,
  \<^verbatim>\<open>new Date(b.timestamp).getTime() - new Date(a.timestamp).getTime()\<close>: NaN when
  either timestamp is not a date.
\<close>

definition compareFn :: "host \<Rightarrow> QRRecord \<Rightarrow> QRRecord \<Rightarrow> number" where
  "compareFn h a b =
     (case (newDate h (timestamp b), newDate h (timestamp a)) of
        (Some tb, Some ta) \<Rightarrow> Some (tb - ta)
      | _ \<Rightarrow> None)"

text \<open>
  \<^verbatim>\<open>Array.prototype.sort\<close> (ECMA-262, 23.1.3.30) is stable, reads a NaN from the
  comparator as \<open>+0\<close>, and orders by the comparator when that is consistent;
  otherwise the order is the implementation's. The model is the stable
  insertion sort: an element is put in front of the first one that it does
  not compare greater than.
\<close>

definition positive :: "number \<Rightarrow> bool" where
  "positive v = (case v of None \<Rightarrow> False | Some i \<Rightarrow> i > 0)"

fun insert_sorted :: "('a \<Rightarrow> 'a \<Rightarrow> number) \<Rightarrow> 'a \<Rightarrow> 'a list \<Rightarrow> 'a list" where
  "insert_sorted cmp x [] = [x]"
| "insert_sorted cmp x (y # ys) =
     (if positive (cmp x y) then y # insert_sorted cmp x ys else x # y # ys)"

definition array_sort :: "('a \<Rightarrow> 'a \<Rightarrow> number) \<Rightarrow> 'a list \<Rightarrow> 'a list" where
  "array_sort cmp xs = foldr (insert_sorted cmp) xs []"

section \<open>The Expo app\<close>

text \<open>
  The state of the two tabs of the layout (\<^verbatim>\<open>TabLayout\<close>, in \<^verbatim>\<open>unnamed/part_000\<close>:
  the scanner first, then the records) and of the storage
  they share. \<open>store\<close> is the array kept under the AsyncStorage key
  \<^verbatim>\<open>@qr_records\<close> (a missing key reads as the empty array); the other fields
  are the \<^verbatim>\<open>useState\<close> variables of \<^verbatim>\<open>ScannerScreen\<close> and \<^verbatim>\<open>RecordsScreen\<close> that
  the handlers read. A handler runs to its end before the next one starts
  (one user, one writer).

  A call of AsyncStorage can fail: \<^verbatim>\<open>getItem\<close> rejects or \<^verbatim>\<open>JSON.parse\<close> throws
  on what it returns (a failed read), \<^verbatim>\<open>setItem\<close> rejects (a failed write).
  Every handler takes, for each call it makes, whether the call works
  (\<open>True\<close>) or fails, and each \<^verbatim>\<open>catch\<close> of the source is a branch here.
\<close>

datatype tab = ScannerTab | RecordsTab

record app =
  store :: "QRRecord list"
  tab :: tab
  qrValue :: jsstring
  personName :: jsstring
  showWarning :: bool
  isProcessing :: bool
  isSuccess :: bool
  records :: "QRRecord list"
  editingRecord :: "QRRecord option"
  editName :: jsstring

text \<open>
  \<^verbatim>\<open>getRecords\<close> (line 656) catches a failed read and returns the empty array.
  \<^verbatim>\<open>saveRecord\<close> (line 666) reads through \<^verbatim>\<open>getRecords\<close>, appends and writes; it
  throws again what the write throws.
\<close>

datatype storage_error = WriteFailed

definition getRecords :: "bool \<Rightarrow> app \<Rightarrow> QRRecord list" where
  "getRecords readWorks s = (if readWorks then store s else [])"

definition saveRecord :: "QRRecord \<Rightarrow> bool \<Rightarrow> bool \<Rightarrow> app \<Rightarrow> storage_error + app" where
  "saveRecord record readWorks writeWorks s =
     (let existingRecords = getRecords readWorks s;
          updatedRecords = existingRecords @ [record]
      in if writeWorks then Inr (s\<lparr>store := updatedRecords\<rparr>) else Inl WriteFailed)"

text \<open>
  \<^verbatim>\<open>handleQRCodeScanned\<close> (line 631): the camera's callback. It returns what the
  user is shown: nothing, the duplicate warning or the short vibration of a
  new code. Its own \<^verbatim>\<open>catch\<close> around \<^verbatim>\<open>getRecords\<close> is never reached, since
  \<^verbatim>\<open>getRecords\<close> does not throw.
\<close>

datatype scan_outcome = ScanIgnored | ScanDuplicate | ScanNew

definition handleQRCodeScanned :: "jsstring \<Rightarrow> bool \<Rightarrow> app \<Rightarrow> app \<times> scan_outcome" where
  "handleQRCodeScanned data readWorks s =
     (if isProcessing s \<or> data = [] \<or> trim data = [] then (s, ScanIgnored)
      else
        let s1 = s\<lparr>qrValue := trim data\<rparr>;
            existingRecords = getRecords readWorks s1;
            isDuplicate = list_ex (\<lambda>record. qrcode record = trim data) existingRecords
        in if isDuplicate then (s1\<lparr>showWarning := True\<rparr>, ScanDuplicate)
           else (s1, ScanNew))"

text \<open>
  \<^verbatim>\<open>handleRegister\<close> (line 677), at the clock reading \<open>now\<close>; \<open>readWorks\<close> is
  the read of its own duplicate check, \<open>rereadWorks\<close> and \<open>writeWorks\<close> are
  the read and the write of \<^verbatim>\<open>saveRecord\<close>. The outcomes are the alert for a
  missing code, the duplicate warning, success, and the alert of the \<^verbatim>\<open>catch\<close>
  branch, which a RangeError of \<^verbatim>\<open>toISOString\<close> and a failed write reach.
\<close>

datatype register_outcome = NoCode | Duplicate | Registered QRRecord | RegisterFailed

definition handleRegister ::
  "host \<Rightarrow> int \<Rightarrow> bool \<Rightarrow> bool \<Rightarrow> bool \<Rightarrow> app \<Rightarrow> app \<times> register_outcome" where
  "handleRegister h now readWorks rereadWorks writeWorks s =
     (if trim (qrValue s) = [] then (s, NoCode)
      else
        let finalName = or_else (trim (personName s)) (lit ''Unnamed'');
            existingRecords = getRecords readWorks s;
            isDuplicate = list_ex (\<lambda>record. qrcode record = qrValue s) existingRecords
        in if isDuplicate then (s\<lparr>showWarning := True\<rparr>, Duplicate)
           else
             let utcTime = now + tzOffset h now * 60000;
                 eatTime = timeClip (utcTime + 10800000)
             in case toISOString eatTime of
                  Inl e \<Rightarrow> (s, RegisterFailed)
                | Inr isoString \<Rightarrow>
                    let newRecord = \<lparr>qrcode = qrValue s, name = finalName, timestamp = isoString,
                                      timezoneOffset = None\<rparr>
                    in case saveRecord newRecord rereadWorks writeWorks s of
                         Inl e \<Rightarrow> (s, RegisterFailed)
                       | Inr saved \<Rightarrow> (saved\<lparr>isSuccess := True\<rparr>, Registered newRecord))"

text \<open>The records screen: \<^verbatim>\<open>loadRecords\<close>, \<^verbatim>\<open>editRecord\<close>, \<^verbatim>\<open>saveEdit\<close>, \<^verbatim>\<open>deleteRecord\<close>
  (lines 47-175). After a failed read \<^verbatim>\<open>loadRecords\<close> shows an alert and leaves
  \<open>records\<close> as it was. \<^verbatim>\<open>saveEdit\<close> and \<^verbatim>\<open>deleteRecord\<close> write the screen's own
  \<open>records\<close> back to the storage, without reading it; after a failed write
  they show an alert and change nothing.\<close>

definition loadRecords :: "host \<Rightarrow> bool \<Rightarrow> app \<Rightarrow> app" where
  "loadRecords h readWorks s =
     (if readWorks
      then let parsedRecords = store s
           in s\<lparr>records := array_sort (compareFn h) parsedRecords\<rparr>
      else s)"

definition editRecord :: "QRRecord \<Rightarrow> app \<Rightarrow> app" where
  "editRecord record s = s\<lparr>editingRecord := Some record, editName := name record\<rparr>"

definition saveEdit :: "bool \<Rightarrow> app \<Rightarrow> app" where
  "saveEdit writeWorks s =
     (case editingRecord s of
        None \<Rightarrow> s
      | Some editing \<Rightarrow>
          if trim (editName s) = [] then s
          else
            let updatedRecords =
                  map (\<lambda>record. if qrcode record = qrcode editing
                                 then record\<lparr>name := trim (editName s)\<rparr> else record)
                      (records s)
            in if writeWorks
               then s\<lparr>store := updatedRecords, records := updatedRecords,
                      editingRecord := None, editName := []\<rparr>
               else s)"

definition deleteRecord :: "jsstring \<Rightarrow> bool \<Rightarrow> bool \<Rightarrow> app \<Rightarrow> app" where
  "deleteRecord code confirmed writeWorks s =
     (if confirmed
      then let updatedRecords = filter (\<lambda>record. qrcode record \<noteq> code) (records s)
           in if writeWorks then s\<lparr>store := updatedRecords, records := updatedRecords\<rparr>
              else s
      else s)"

text \<open>
  What can happen to the app, one event at a time, with the fate of the
  storage calls the event makes. A tab's buttons exist only while the tab is
  shown; opening a tab runs its \<^verbatim>\<open>useFocusEffect\<close> (the scanner clears its form,
  the records screen reloads). \<open>ClearForm\<close> and \<open>HideWarning\<close> are the
  timers a registration and a warning start. \<open>Restart\<close> is a new launch of
  the app over the same storage.
\<close>

datatype event =
    Scan jsstring bool
  | TypeName jsstring
  | Register int bool bool bool
  | ClearForm
  | HideWarning
  | OpenScanner
  | OpenRecords bool
  | Edit nat
  | TypeEditName jsstring
  | Save bool
  | Cancel
  | Delete nat bool bool
  | Restart

definition resetForm :: "app \<Rightarrow> app" where
  "resetForm s = s\<lparr>qrValue := [], personName := [], showWarning := False, isSuccess := False\<rparr>"

definition launch :: "QRRecord list \<Rightarrow> app" where
  "launch stored =
     \<lparr>store = stored, tab = ScannerTab, qrValue = [], personName = [], showWarning = False,
      isProcessing = False, isSuccess = False, records = [], editingRecord = None,
      editName = []\<rparr>"

fun step :: "host \<Rightarrow> app \<Rightarrow> event \<Rightarrow> app" where
  "step h s (Scan data readWorks) =
     (if tab s = ScannerTab then fst (handleQRCodeScanned data readWorks s) else s)"
| "step h s (TypeName n) = (if tab s = ScannerTab then s\<lparr>personName := n\<rparr> else s)"
| "step h s (Register now readWorks rereadWorks writeWorks) =
     (if tab s = ScannerTab \<and> qrValue s \<noteq> [] \<and> \<not> isProcessing s
      then fst (handleRegister h now readWorks rereadWorks writeWorks s) else s)"
| "step h s ClearForm = s\<lparr>qrValue := [], personName := [], isSuccess := False\<rparr>"
| "step h s HideWarning = s\<lparr>showWarning := False\<rparr>"
| "step h s OpenScanner = (if tab s = ScannerTab then s else resetForm (s\<lparr>tab := ScannerTab\<rparr>))"
| "step h s (OpenRecords readWorks) =
     (if tab s = RecordsTab then s else loadRecords h readWorks (s\<lparr>tab := RecordsTab\<rparr>))"
| "step h s (Edit i) =
     (if tab s = RecordsTab \<and> i < length (records s) then editRecord (records s ! i) s else s)"
| "step h s (TypeEditName n) =
     (if tab s = RecordsTab \<and> editingRecord s \<noteq> None then s\<lparr>editName := n\<rparr> else s)"
| "step h s (Save writeWorks) = (if tab s = RecordsTab then saveEdit writeWorks s else s)"
| "step h s Cancel =
     (if tab s = RecordsTab then s\<lparr>editingRecord := None, editName := []\<rparr> else s)"
| "step h s (Delete i confirmed writeWorks) =
     (if tab s = RecordsTab \<and> i < length (records s)
      then deleteRecord (qrcode (records s ! i)) confirmed writeWorks s else s)"
| "step h s Restart = launch (store s)"

definition run :: "host \<Rightarrow> app \<Rightarrow> event list \<Rightarrow> app" where
  "run h s evs = foldl (step h) s evs"

text \<open>
  \<^verbatim>\<open>exportToCSV\<close> (line 177) refuses an empty list and otherwise builds the text
  it then writes to a file and shares; the result here is that text.
  \<open>csvRow\<close> is the body of the \<^verbatim>\<open>map\<close> callback (lines 188-194), \<open>0x22\<close> the
  double quote and \<open>0x0A\<close> the line feed.
\<close>

definition csvHeader :: jsstring where
  "csvHeader = lit ''Name,QR Code,Registration Date (EAT)'' @ [0x0A]"

definition csvRow :: "host \<Rightarrow> QRRecord \<Rightarrow> jsstring" where
  "csvRow h record =
     (let date = formatCSVTime h (Some (timestamp record));
          escapedName = [0x22] @ replace_quotes (or_else (name record) []) @ [0x22];
          escapedQrcode = [0x22] @ replace_quotes (or_else (qrcode record) []) @ [0x22];
          escapedDate = [0x22] @ replace_quotes date @ [0x22]
      in escapedName @ lit '','' @ escapedQrcode @ lit '','' @ escapedDate)"

definition csvContent :: "host \<Rightarrow> QRRecord list \<Rightarrow> jsstring" where
  "csvContent h recs =
     (let csvRows = join [0x0A] (map (csvRow h) recs)
      in csvHeader @ csvRows)"

definition exportToCSV :: "host \<Rightarrow> app \<Rightarrow> jsstring option" where
  "exportToCSV h s =
     (if length (records s) = 0 then None else Some (csvContent h (records s)))"

section \<open>The browser app\<close>

text \<open>
  \<^verbatim>\<open>app.js\<close> keeps the records in the IndexedDB object store \<^verbatim>\<open>records\<close>, whose
  key path is \<^verbatim>\<open>qrcode\<close>: a map from codes to records, where \<^verbatim>\<open>put\<close> files a
  record under its own code. The form has the two inputs \<^verbatim>\<open>qrcodeValue\<close> and
  \<^verbatim>\<open>personName\<close>. A request of a transaction that fails rejects its promise, and
  the handler ends in its \<^verbatim>\<open>catch\<close> with an alert: nothing is put or deleted and
  the form stays as it is. Such a call leaves the state below unchanged, so the
  handlers are given for requests that succeed.
\<close>

type_synonym objectStore = "jsstring \<rightharpoonup> QRRecord"

record web =
  db :: objectStore
  qrcodeValue :: jsstring
  personNameValue :: jsstring

definition put :: "QRRecord \<Rightarrow> objectStore \<Rightarrow> objectStore" where
  "put record st = st(qrcode record \<mapsto> record)"

definition onScanSuccess :: "jsstring \<Rightarrow> web \<Rightarrow> web" where
  "onScanSuccess qrCodeMessage w =
     (if qrCodeMessage \<noteq> [] \<and> trim qrCodeMessage \<noteq> []
      then w\<lparr>qrcodeValue := trim qrCodeMessage\<rparr> else w)"

definition clearForm :: "web \<Rightarrow> web" where
  "clearForm w = w\<lparr>qrcodeValue := [], personNameValue := []\<rparr>"

datatype submit_outcome =
  SubmitIgnored | SubmitDuplicate | SubmitRegistered QRRecord | SubmitFailed

definition handleFormSubmission :: "int \<Rightarrow> web \<Rightarrow> web \<times> submit_outcome" where
  "handleFormSubmission now w =
     (let code = trim (qrcodeValue w);
          nm = or_else (trim (personNameValue w)) (lit ''Unnamed'')
      in if code = [] then (w, SubmitIgnored)
         else case db w code of
                Some existingRecord \<Rightarrow> (w, SubmitDuplicate)
              | None \<Rightarrow>
                  (case toISOString (timeClip now) of
                     Inl e \<Rightarrow> (w, SubmitFailed)
                   | Inr isoString \<Rightarrow>
                       let newRecord = \<lparr>qrcode = code, name = nm, timestamp = isoString,
                                         timezoneOffset = Some 180\<rparr>
                       in (clearForm (w\<lparr>db := put newRecord (db w)\<rparr>),
                           SubmitRegistered newRecord)))"

text \<open>
  \<^verbatim>\<open>window.editRecord\<close> (line 1395): \<open>answer\<close> is what \<^verbatim>\<open>prompt\<close> returns,
  \<open>None\<close> when the user cancels. \<^verbatim>\<open>window.deleteRecord\<close> (line 1427) asks
  \<^verbatim>\<open>confirm\<close> first.
\<close>

definition web_editRecord :: "jsstring \<Rightarrow> jsstring option \<Rightarrow> web \<Rightarrow> web" where
  "web_editRecord code answer w =
     (case db w code of
        None \<Rightarrow> w
      | Some record \<Rightarrow>
          (case answer of
             None \<Rightarrow> w
           | Some newName \<Rightarrow>
               if trim newName \<noteq> []
               then w\<lparr>db := put (record\<lparr>name := trim newName\<rparr>) (db w)\<rparr>
               else w))"

definition web_deleteRecord :: "jsstring \<Rightarrow> bool \<Rightarrow> web \<Rightarrow> web" where
  "web_deleteRecord code confirmed w =
     (if confirmed then w\<lparr>db := (db w)(code := None)\<rparr> else w)"

text \<open>
  \<^verbatim>\<open>loadRecords\<close> (line 1329) and \<^verbatim>\<open>window.exportToCSV\<close> (line 1504) of \<^verbatim>\<open>app.js\<close>,
  from the array that \<^verbatim>\<open>store.getAll()\<close> hands them: the first returns the
  array it renders, the second the text it exports.
\<close>

definition web_loadRecords :: "host \<Rightarrow> QRRecord list \<Rightarrow> QRRecord list" where
  "web_loadRecords h recs = array_sort (compareFn h) recs"

definition web_csvRow :: "host \<Rightarrow> int \<Rightarrow> QRRecord \<Rightarrow> jsstring" where
  "web_csvRow h now record =
     (let date = web_formatCSVTime h now (Some (timestamp record));
          escapedName = [0x22] @ replace_quotes (or_else (name record) []) @ [0x22];
          escapedQrcode = [0x22] @ replace_quotes (or_else (qrcode record) []) @ [0x22];
          escapedDate = [0x22] @ replace_quotes date @ [0x22]
      in escapedName @ lit '','' @ escapedQrcode @ lit '','' @ escapedDate)"

definition web_exportToCSV :: "host \<Rightarrow> int \<Rightarrow> QRRecord list \<Rightarrow> jsstring option" where
  "web_exportToCSV h now recs =
     (if length recs = 0 then None
      else
        let sorted = array_sort (compareFn h) recs;
            csvRows = join [0x0A] (map (web_csvRow h now) sorted)
        in Some (csvHeader @ csvRows))"

datatype web_event =
    WebScan jsstring
  | WebTypeCode jsstring
  | WebTypeName jsstring
  | WebSubmit int
  | WebEdit jsstring "jsstring option"
  | WebDelete jsstring bool

definition web_launch :: "objectStore \<Rightarrow> web" where
  "web_launch stored = \<lparr>db = stored, qrcodeValue = [], personNameValue = []\<rparr>"

fun web_step :: "web \<Rightarrow> web_event \<Rightarrow> web" where
  "web_step w (WebScan m) = onScanSuccess m w"
| "web_step w (WebTypeCode c) = w\<lparr>qrcodeValue := c\<rparr>"
| "web_step w (WebTypeName n) = w\<lparr>personNameValue := n\<rparr>"
| "web_step w (WebSubmit now) = fst (handleFormSubmission now w)"
| "web_step w (WebEdit code answer) = web_editRecord code answer w"
| "web_step w (WebDelete code confirmed) = web_deleteRecord code confirmed w"

definition web_run :: "web \<Rightarrow> web_event list \<Rightarrow> web" where
  "web_run w evs = foldl web_step w evs"

section \<open>The specification's notions\<close>

text \<open>
  What the specification says of a CSV field: it is wrapped in double quotes
  and every double quote inside it is doubled. A data row has the three fields
  name, code and formatted date, separated by commas.
\<close>

definition csv_quoted :: "jsstring \<Rightarrow> jsstring" where
  "csv_quoted s = [0x22] @ concat (map (\<lambda>c. if c = 0x22 then [0x22, 0x22] else [c]) s) @ [0x22]"

definition csv_line :: "(jsstring option \<Rightarrow> jsstring) \<Rightarrow> QRRecord \<Rightarrow> jsstring" where
  "csv_line fmt r = csv_quoted (name r) @ lit '','' @ csv_quoted (qrcode r) @ lit '',''
     @ csv_quoted (fmt (Some (timestamp r)))"

text \<open>The code units that can occur in a formatted date.\<close>

definition date_chars :: "16 word set" where
  "date_chars = set (lit ''0123456789-NaN/: EAT'')"

text \<open>
  The order of the listing in the specification's words: \<open>not_older h a b\<close> says
  that both timestamps are dates and \<open>a\<close>'s is not before \<open>b\<close>'s, and
  \<open>created_at h t\<close> picks the records created at the instant \<open>t\<close>.
  \<open>age_key\<close> is the key by which the library's stable sort gives that order.
\<close>

definition not_older :: "host \<Rightarrow> QRRecord \<Rightarrow> QRRecord \<Rightarrow> bool" where
  "not_older h a b =
     (case (newDate h (timestamp a), newDate h (timestamp b)) of
        (Some ta, Some tb) \<Rightarrow> tb \<le> ta
      | _ \<Rightarrow> False)"

definition created_at :: "host \<Rightarrow> int \<Rightarrow> QRRecord \<Rightarrow> bool" where
  "created_at h t r \<longleftrightarrow> newDate h (timestamp r) = Some t"

definition age_key :: "host \<Rightarrow> QRRecord \<Rightarrow> int" where
  "age_key h r = (case newDate h (timestamp r) of Some t \<Rightarrow> - t | None \<Rightarrow> 0)"

text \<open>A record of three literals, for concrete runs.\<close>

definition sample :: "string \<Rightarrow> string \<Rightarrow> string \<Rightarrow> QRRecord" where
  "sample code nm ts = \<lparr>qrcode = lit code, name = lit nm, timestamp = lit ts, timezoneOffset = None\<rparr>"

text \<open>
  An event whose reads of the storage all work; its writes may fail.
\<close>

fun reads_work :: "event \<Rightarrow> bool" where
  "reads_work (Scan d readWorks) = readWorks"
| "reads_work (Register now readWorks rereadWorks writeWorks) = (readWorks \<and> rereadWorks)"
| "reads_work (OpenRecords readWorks) = readWorks"
| "reads_work ev = True"

text \<open>
  What holds of every state the Expo app reaches while the storage can be
  read: no code twice in the storage or on the records screen, no empty name
  or code, no handler left running, and the records screen, while shown, lists
  exactly what is stored.
\<close>

definition app_ok :: "app \<Rightarrow> bool" where
  "app_ok s \<longleftrightarrow> distinct (map qrcode (store s)) \<and> distinct (map qrcode (records s))
     \<and> (\<forall>r\<in>set (store s) \<union> set (records s). name r \<noteq> [] \<and> qrcode r \<noteq> [])
     \<and> \<not> isProcessing s
     \<and> (tab s = RecordsTab \<longrightarrow> mset (records s) = mset (store s))"

text \<open>
  The specification's \<^verbatim>\<open>checkDuplicate\<close>: trim the raw code and look for a stored
  record with that code.
\<close>

definition checkDuplicate :: "jsstring \<Rightarrow> QRRecord list \<Rightarrow> bool" where
  "checkDuplicate rawCode stored \<longleftrightarrow> trim rawCode \<in> qrcode ` set stored"

text \<open>
  What holds of every state the browser app can reach: a record is filed under
  its own code, and no name or code is empty.
\<close>

definition web_ok :: "web \<Rightarrow> bool" where
  "web_ok w \<longleftrightarrow> (\<forall>k r. db w k = Some r \<longrightarrow> qrcode r = k \<and> name r \<noteq> [] \<and> k \<noteq> [])"

text \<open>Every timestamp of the list is a string that \<^verbatim>\<open>toISOString\<close> has printed.\<close>

definition iso_stamped :: "QRRecord list \<Rightarrow> bool" where
  "iso_stamped rs \<longleftrightarrow> (\<forall>r\<in>set rs. \<exists>t. toISOString (timeClip t) = Inr (timestamp r))"

text \<open>
  What holds of every state the Expo app can reach, whatever the storage
  does: no empty name, in the storage or on the records screen, and no handler
  left running.
\<close>

definition names_ok :: "app \<Rightarrow> bool" where
  "names_ok s \<longleftrightarrow> [] \<notin> name ` set (store s) \<and> [] \<notin> name ` set (records s) \<and> \<not> isProcessing s"

section \<open>Evaluating strings and dates\<close>

lemma digits_small: "n < 10 \<Longrightarrow> digits n = [0x30 + of_nat n]"
  by (subst digits.simps) simp

lemma digits_large:
  "\<not> n < 10 \<Longrightarrow> digits n = digits (n div 10) @ [0x30 + of_nat (n mod 10)]"
  by (subst digits.simps) simp

lemma pad_fill:
  "replicate 2 c = [c, c]" "replicate 3 c = [c, c, c]" "replicate 4 c = [c, c, c, c]"
  "replicate 5 c = [c, c, c, c, c]"
  by (simp_all add: numeral_eq_Suc)

lemmas eval_string = lit_def toString_def padStart_def pad_def digits_small digits_large
  pad_fill monthName_def months_def ampmOf_def hours12_def num_ge_def num_rem_def
  num_add_def truthy_def

lemma civil_19723: "civil 19723 = (2024, 0, 1)"
  unfolding civil_def Let_def by simp

lemma fields_1704078000000:
  "yearFromTime 1704078000000 = 2024" "monthFromTime 1704078000000 = 0"
  "dateFromTime 1704078000000 = 1" "hourFromTime 1704078000000 = 3"
  "minFromTime 1704078000000 = 0" "secFromTime 1704078000000 = 0"
  "msFromTime 1704078000000 = 0"
  by (simp_all add: yearFromTime_def monthFromTime_def dateFromTime_def hourFromTime_def
      minFromTime_def secFromTime_def msFromTime_def civil_19723)

lemma isoParse_2024: "isoParse (lit ''2024-01-01T00:00:00Z'') = Some 1704067200000"
  unfolding isoParse_def isoFields_def decimal_def daysFromCivil_def daysInMonth_def Let_def
    lit_def isDigit_def
  by simp

lemma falsy_simps: "falsy None" "falsy (Some s) \<longleftrightarrow> s = []"
  by (simp_all add: falsy_def)

lemma format_valid:
  assumes "ts \<noteq> []" and "newDate h ts = Some t"
  shows "formatCSVTime h (Some ts) = csvString h (timeClip (t + tzOffset h t * 60000 + 10800000))"
    and "web_formatCSVTime h now (Some ts)
         = csvString h (timeClip (t + tzOffset h t * 60000 + 10800000))"
  using assms
  by (simp_all add: formatCSVTime_def web_formatCSVTime_def toEATTime_def falsy_simps Let_def)

lemma strings_2024:
  assumes "localTime h e = 1704078000000"
  shows "csvString h (Some e) = lit ''01/01/2024 03:00:00 EAT''"
    and "displayString h (Some e) = lit ''Jan 1, 2024, 3:00 AM EAT''"
  unfolding csvString_def displayString_def Let_def getMonth_def getDate_def getFullYear_def
    getHours_def getMinutes_def getSeconds_def
  by (simp_all add: assms fields_1704078000000 eval_string)

lemma fixedHost_0: "tzOffset (fixedHost 0) = (\<lambda>_. 0)" "dateParse (fixedHost 0) = isoParse"
  by (simp_all add: fixedHost_def)

lemma newDate_2024: "newDate (fixedHost 0) (lit ''2024-01-01T00:00:00Z'') = Some 1704067200000"
  by (simp add: newDate_def fixedHost_0 isoParse_2024 timeClip_def)

lemma formatCSVTime_2024:
  "formatCSVTime (fixedHost 0) (Some (lit ''2024-01-01T00:00:00Z'')) = lit ''01/01/2024 03:00:00 EAT''"
proof -
  have ne: "lit ''2024-01-01T00:00:00Z'' \<noteq> []"
    by (simp add: lit_def)
  have loc: "localTime (fixedHost 0) 1704078000000 = 1704078000000"
    by (simp add: localTime_def fixedHost_0)
  show ?thesis
    using format_valid(1) [OF ne newDate_2024] strings_2024(1) [OF loc]
    by (simp add: fixedHost_0 timeClip_def)
qed

lemma isoParse_2105: "isoParse (lit ''2024-01-01T21:05:09Z'') = Some 1704143109000"
  unfolding isoParse_def isoFields_def decimal_def daysFromCivil_def daysInMonth_def Let_def
    lit_def isDigit_def
  by simp

lemma newDate_2105: "newDate (fixedHost 0) (lit ''2024-01-01T21:05:09Z'') = Some 1704143109000"
  by (simp add: newDate_def fixedHost_0 isoParse_2105 timeClip_def)

lemma toISOString_0300:
  "toISOString (Some 1704078000000) = Inr (lit ''2024-01-01T03:00:00.000Z'')"
  unfolding toISOString_def isoYear_def
  by (simp add: fields_1704078000000 eval_string)

lemmas eval_app = run_def launch_def handleQRCodeScanned_def handleRegister_def getRecords_def
  saveRecord_def loadRecords_def array_sort_def editRecord_def saveEdit_def deleteRecord_def
  resetForm_def Let_def or_else_def fixedHost_0 timeClip_def

lemma trim_samples:
  "trim (lit '' A '') = lit ''A''" "trim (lit ''A'') = lit ''A''" "trim (lit ''Al'') = lit ''Al''"
  "trim [] = []" "trim (lit ''  Alice  '') = lit ''Alice''"
  by (simp_all add: trim_def lit_def isWhiteSpace_def)

lemma lit_samples:
  "lit '' A '' \<noteq> []" "lit ''A'' \<noteq> []" "lit ''Al'' \<noteq> []" "lit ''Alice'' \<noteq> []"
  by (simp_all add: lit_def)

lemma fields_1704067200000:
  "yearFromTime 1704067200000 = 2024" "monthFromTime 1704067200000 = 0"
  "dateFromTime 1704067200000 = 1" "hourFromTime 1704067200000 = 0"
  "minFromTime 1704067200000 = 0" "secFromTime 1704067200000 = 0"
  "msFromTime 1704067200000 = 0"
  by (simp_all add: yearFromTime_def monthFromTime_def dateFromTime_def hourFromTime_def
      minFromTime_def secFromTime_def msFromTime_def civil_19723)

lemma toISOString_0000:
  "toISOString (Some 1704067200000) = Inr (lit ''2024-01-01T00:00:00.000Z'')"
  unfolding toISOString_def isoYear_def
  by (simp add: fields_1704067200000 eval_string)

lemmas eval_web = web_run_def web_launch_def onScanSuccess_def handleFormSubmission_def put_def
  clearForm_def web_editRecord_def web_deleteRecord_def Let_def or_else_def timeClip_def

lemma mset_single: "mset xs = {#x#} \<Longrightarrow> xs = [x]"
  by (cases xs) auto

lemma fields_1704078060000:
  "yearFromTime 1704078060000 = 2024" "monthFromTime 1704078060000 = 0"
  "dateFromTime 1704078060000 = 1" "hourFromTime 1704078060000 = 3"
  "minFromTime 1704078060000 = 1" "secFromTime 1704078060000 = 0"
  "msFromTime 1704078060000 = 0"
  by (simp_all add: yearFromTime_def monthFromTime_def dateFromTime_def hourFromTime_def
      minFromTime_def secFromTime_def msFromTime_def civil_19723)

lemma toISOString_0301:
  "toISOString (Some 1704078060000) = Inr (lit ''2024-01-01T03:01:00.000Z'')"
  unfolding toISOString_def isoYear_def
  by (simp add: fields_1704078060000 eval_string)

lemma code_samples:
  "trim (lit ''B'') = lit ''B''" "lit ''B'' \<noteq> []" "lit ''A'' \<noteq> lit ''B''"
  "lit ''B'' \<noteq> lit ''A''"
  by (simp_all add: trim_def lit_def isWhiteSpace_def)

section \<open>The states the Expo app can reach\<close>

lemma mset_insert_sorted: "mset (insert_sorted cmp x ys) = add_mset x (mset ys)"
  by (induction ys) simp_all

lemma mset_array_sort: "mset (array_sort cmp xs) = mset xs"
  by (induction xs) (simp_all add: array_sort_def mset_insert_sorted)

lemma lit_Unnamed: "lit ''Unnamed'' \<noteq> []"
  by (simp add: lit_def)

lemma or_else_nonempty: "b \<noteq> [] \<Longrightarrow> or_else a b \<noteq> []"
  by (simp add: or_else_def)

lemma list_ex_code: "list_ex (\<lambda>record. qrcode record = c) xs \<longleftrightarrow> c \<in> qrcode ` set xs"
  by (auto simp: list_ex_iff)

lemma scan_fields:
  "store (fst (handleQRCodeScanned d rw s)) = store s"
  "records (fst (handleQRCodeScanned d rw s)) = records s"
  "tab (fst (handleQRCodeScanned d rw s)) = tab s"
  "isProcessing (fst (handleQRCodeScanned d rw s)) = isProcessing s"
  "personName (fst (handleQRCodeScanned d rw s)) = personName s"
  by (simp_all add: handleQRCodeScanned_def Let_def)

lemma scan_qrValue:
  assumes "\<not> isProcessing s" and "trim d \<noteq> []"
  shows "qrValue (fst (handleQRCodeScanned d rw s)) = trim d"
proof -
  have "d \<noteq> []" using assms(2) by (auto simp: trim_def)
  then show ?thesis
    using assms by (simp add: handleQRCodeScanned_def Let_def)
qed

lemma scan_outcome:
  assumes "\<not> isProcessing s" and "trim d \<noteq> []"
  shows "snd (handleQRCodeScanned d rw s)
         = (if rw \<and> trim d \<in> qrcode ` set (store s) then ScanDuplicate else ScanNew)"
proof -
  have "d \<noteq> []" using assms(2) by (auto simp: trim_def)
  then show ?thesis
    using assms
    by (cases rw) (simp_all add: handleQRCodeScanned_def Let_def getRecords_def list_ex_code)
qed

lemma register_fields:
  "records (fst (handleRegister h now rw rr ww s)) = records s"
  "tab (fst (handleRegister h now rw rr ww s)) = tab s"
  "isProcessing (fst (handleRegister h now rw rr ww s)) = isProcessing s"
  "qrValue (fst (handleRegister h now rw rr ww s)) = qrValue s"
  by (simp_all add: handleRegister_def Let_def saveRecord_def split: sum.splits)

lemma register_duplicate:
  assumes "trim (qrValue s) \<noteq> []" and "qrValue s \<in> qrcode ` set (store s)"
  shows "snd (handleRegister h now True rr ww s) = Duplicate"
    and "store (fst (handleRegister h now True rr ww s)) = store s"
  using assms by (simp_all add: handleRegister_def Let_def getRecords_def list_ex_code)

lemma register_new:
  assumes "trim (qrValue s) \<noteq> []" and "qrValue s \<notin> qrcode ` set (store s)"
    and "toISOString (timeClip (now + tzOffset h now * 60000 + 10800000)) = Inr stamp"
  defines "r \<equiv> \<lparr>qrcode = qrValue s, name = or_else (trim (personName s)) (lit ''Unnamed''),
                  timestamp = stamp, timezoneOffset = None\<rparr>"
  shows "snd (handleRegister h now True True True s) = Registered r"
    and "store (fst (handleRegister h now True True True s)) = store s @ [r]"
  using assms
  by (simp_all add: handleRegister_def Let_def getRecords_def list_ex_code saveRecord_def)

lemma register_store_cases:
  "store (fst (handleRegister h now rw rr ww s)) = store s
   \<or> (\<exists>stamp. trim (qrValue s) \<noteq> [] \<and> (rw \<and> qrValue s \<in> qrcode ` set (store s)) = False
        \<and> toISOString (timeClip (now + tzOffset h now * 60000 + 10800000)) = Inr stamp
        \<and> store (fst (handleRegister h now rw rr ww s))
            = getRecords rr s @ [\<lparr>qrcode = qrValue s,
                 name = or_else (trim (personName s)) (lit ''Unnamed''),
                 timestamp = stamp, timezoneOffset = None\<rparr>])"
  by (auto simp: handleRegister_def Let_def getRecords_def list_ex_code saveRecord_def
      split: sum.splits)

lemma distinct_codes_mset:
  assumes "mset xs = mset ys"
  shows "distinct (map qrcode xs) \<longleftrightarrow> distinct (map qrcode ys)"
proof -
  have "mset (map qrcode xs) = mset (map qrcode ys)"
    using assms by (metis mset_map)
  then show ?thesis
    by (rule mset_eq_imp_distinct_iff)
qed

text \<open>What holds while the reads of the storage work; a write may fail.\<close>

lemma app_ok_launch: "app_ok (launch [])"
  by (simp add: app_ok_def launch_def)

lemma app_ok_scan: "app_ok s \<Longrightarrow> app_ok (fst (handleQRCodeScanned d rw s))"
  by (simp add: app_ok_def scan_fields)

lemma app_ok_register:
  assumes "app_ok s" and "tab s = ScannerTab"
  shows "app_ok (fst (handleRegister h now True True ww s))"
proof -
  from register_store_cases [of h now True True ww s]
  show ?thesis
  proof
    assume "store (fst (handleRegister h now True True ww s)) = store s"
    then show ?thesis using assms by (simp add: app_ok_def register_fields)
  next
    assume "\<exists>stamp. trim (qrValue s) \<noteq> [] \<and> (True \<and> qrValue s \<in> qrcode ` set (store s)) = False
        \<and> toISOString (timeClip (now + tzOffset h now * 60000 + 10800000)) = Inr stamp
        \<and> store (fst (handleRegister h now True True ww s))
            = getRecords True s @ [\<lparr>qrcode = qrValue s,
                 name = or_else (trim (personName s)) (lit ''Unnamed''),
                 timestamp = stamp, timezoneOffset = None\<rparr>]"
    then obtain stamp where ne: "trim (qrValue s) \<noteq> []" and fresh: "qrValue s \<notin> qrcode ` set (store s)"
      and st: "store (fst (handleRegister h now True True ww s))
            = store s @ [\<lparr>qrcode = qrValue s, name = or_else (trim (personName s)) (lit ''Unnamed''),
                          timestamp = stamp, timezoneOffset = None\<rparr>]"
      by (auto simp: getRecords_def)
    have "qrValue s \<noteq> []" using ne by (auto simp: trim_def)
    then show ?thesis
      using assms fresh by (auto simp: app_ok_def register_fields st or_else_nonempty lit_Unnamed)
  qed
qed

lemma app_ok_load:
  assumes "app_ok s"
  shows "app_ok (loadRecords h True (s\<lparr>tab := RecordsTab\<rparr>))"
proof -
  have m: "mset (array_sort (compareFn h) (store s)) = mset (store s)"
    by (rule mset_array_sort)
  have "set (array_sort (compareFn h) (store s)) = set (store s)"
    using m by (rule mset_eq_setD)
  then show ?thesis
    using assms distinct_codes_mset [OF m] by (simp add: app_ok_def loadRecords_def m)
qed

lemma app_ok_saveEdit:
  assumes "app_ok s"
  shows "app_ok (saveEdit ww s)"
proof (cases "editingRecord s")
  case None
  then show ?thesis using assms by (simp add: saveEdit_def)
next
  case (Some editing)
  show ?thesis
  proof (cases "trim (editName s) = [] \<or> \<not> ww")
    case True
    then show ?thesis using assms Some by (auto simp: saveEdit_def)
  next
    case False
    define us where "us = map (\<lambda>record. if qrcode record = qrcode editing
                         then record\<lparr>name := trim (editName s)\<rparr> else record) (records s)"
    have codes: "map qrcode us = map qrcode (records s)"
      unfolding us_def by (induction "records s") auto
    have st: "store (saveEdit ww s) = us" "records (saveEdit ww s) = us"
      "isProcessing (saveEdit ww s) = isProcessing s"
      using Some False by (simp_all add: saveEdit_def Let_def us_def)
    have names: "\<forall>r\<in>set us. name r \<noteq> [] \<and> qrcode r \<noteq> []"
      using assms False by (auto simp: app_ok_def us_def)
    show ?thesis
      unfolding app_ok_def st codes using assms names by (simp add: app_ok_def)
  qed
qed

lemma distinct_codes_filter: "distinct (map qrcode xs) \<Longrightarrow> distinct (map qrcode (filter P xs))"
  by (rule distinct_map_filter)

lemma app_ok_delete:
  assumes "app_ok s"
  shows "app_ok (deleteRecord c confirmed ww s)"
  using assms by (auto simp: app_ok_def deleteRecord_def Let_def distinct_codes_filter)

lemma app_ok_step:
  assumes "app_ok s" and "reads_work ev"
  shows "app_ok (step h s ev)"
proof (cases ev)
  case (Scan d rw)
  then show ?thesis using assms app_ok_scan by simp
next
  case (Register now rw rr ww)
  then show ?thesis using assms app_ok_register by simp
next
  case (OpenRecords rw)
  then show ?thesis using assms app_ok_load by simp
next
  case (Save ww)
  then show ?thesis using assms app_ok_saveEdit by simp
next
  case (Delete i confirmed ww)
  then show ?thesis using assms app_ok_delete by simp
next
  case Restart
  then show ?thesis using assms by (simp add: app_ok_def launch_def)
qed (use assms in \<open>auto simp: app_ok_def resetForm_def editRecord_def\<close>)

lemma run_snoc: "run h s (evs @ [ev]) = step h (run h s evs) ev"
  by (simp add: run_def)

lemma app_ok_run: "app_ok s \<Longrightarrow> list_all reads_work evs \<Longrightarrow> app_ok (run h s evs)"
  unfolding run_def by (induction evs arbitrary: s) (simp_all add: app_ok_step)

text \<open>What holds whatever the storage does, failed reads included.\<close>

lemma names_ok_launch: "names_ok (launch [])"
  by (simp add: names_ok_def launch_def)

lemma names_ok_register:
  assumes "names_ok s"
  shows "names_ok (fst (handleRegister h now rw rr ww s))"
proof -
  have sub: "set (getRecords rr s) \<subseteq> set (store s)"
    by (cases rr) (simp_all add: getRecords_def)
  from register_store_cases [of h now rw rr ww s]
  show ?thesis
  proof
    assume "store (fst (handleRegister h now rw rr ww s)) = store s"
    then show ?thesis using assms by (simp add: names_ok_def register_fields)
  next
    assume "\<exists>stamp. trim (qrValue s) \<noteq> [] \<and> (rw \<and> qrValue s \<in> qrcode ` set (store s)) = False
        \<and> toISOString (timeClip (now + tzOffset h now * 60000 + 10800000)) = Inr stamp
        \<and> store (fst (handleRegister h now rw rr ww s))
            = getRecords rr s @ [\<lparr>qrcode = qrValue s,
                 name = or_else (trim (personName s)) (lit ''Unnamed''),
                 timestamp = stamp, timezoneOffset = None\<rparr>]"
    then obtain stamp where
      st: "store (fst (handleRegister h now rw rr ww s))
            = getRecords rr s @ [\<lparr>qrcode = qrValue s,
                 name = or_else (trim (personName s)) (lit ''Unnamed''),
                 timestamp = stamp, timezoneOffset = None\<rparr>]"
      by blast
    have "or_else (trim (personName s)) (lit ''Unnamed'') \<noteq> []"
      by (simp add: or_else_nonempty lit_Unnamed)
    moreover have "[] \<notin> name ` set (getRecords rr s)"
      using assms sub by (auto simp: names_ok_def)
    ultimately show ?thesis
      using assms by (auto simp: names_ok_def register_fields st)
  qed
qed

lemma names_ok_load:
  assumes "names_ok s"
  shows "names_ok (loadRecords h rw (s\<lparr>tab := RecordsTab\<rparr>))"
proof -
  have "set (array_sort (compareFn h) (store s)) = set (store s)"
    using mset_array_sort by (rule mset_eq_setD)
  then show ?thesis
    using assms by (simp add: names_ok_def loadRecords_def)
qed

lemma names_ok_saveEdit:
  assumes "names_ok s"
  shows "names_ok (saveEdit ww s)"
proof (cases "editingRecord s")
  case None
  then show ?thesis using assms by (simp add: saveEdit_def)
next
  case (Some editing)
  show ?thesis
  proof (cases "trim (editName s) = [] \<or> \<not> ww")
    case True
    then show ?thesis using assms Some by (auto simp: saveEdit_def)
  next
    case False
    define us where "us = map (\<lambda>record. if qrcode record = qrcode editing
                         then record\<lparr>name := trim (editName s)\<rparr> else record) (records s)"
    have st: "store (saveEdit ww s) = us" "records (saveEdit ww s) = us"
      "isProcessing (saveEdit ww s) = isProcessing s"
      using Some False by (simp_all add: saveEdit_def Let_def us_def)
    have names: "[] \<notin> name ` set us"
      using assms False by (auto simp: names_ok_def us_def)
    show ?thesis
      unfolding names_ok_def st using assms names by (simp add: names_ok_def)
  qed
qed

lemma names_ok_delete:
  assumes "names_ok s"
  shows "names_ok (deleteRecord c confirmed ww s)"
  using assms by (auto simp: names_ok_def deleteRecord_def Let_def)

lemma names_ok_step:
  assumes "names_ok s"
  shows "names_ok (step h s ev)"
proof (cases ev)
  case (Scan d rw)
  then show ?thesis using assms by (simp add: names_ok_def scan_fields)
next
  case (Register now rw rr ww)
  then show ?thesis using assms names_ok_register by simp
next
  case (OpenRecords rw)
  then show ?thesis using assms names_ok_load by simp
next
  case (Save ww)
  then show ?thesis using assms names_ok_saveEdit by simp
next
  case (Delete i confirmed ww)
  then show ?thesis using assms names_ok_delete by simp
next
  case Restart
  then show ?thesis using assms by (simp add: names_ok_def launch_def)
qed (use assms in \<open>auto simp: names_ok_def resetForm_def editRecord_def\<close>)

lemma names_ok_run: "names_ok s \<Longrightarrow> names_ok (run h s evs)"
  unfolding run_def by (induction evs arbitrary: s) (simp_all add: names_ok_step)

lemma trim_idem: "trim (trim s) = trim s"
proof -
  define a where "a = dropWhile isWhiteSpace s"
  define b where "b = dropWhile isWhiteSpace (rev a)"
  have t: "trim s = rev b"
    by (simp add: trim_def a_def b_def)
  have front: "dropWhile isWhiteSpace (rev b) = rev b"
  proof (cases "b = []")
    case True
    then show ?thesis by simp
  next
    case False
    then have "hd (rev b) = last b"
      by (simp add: hd_rev)
    also have "last b = last (rev a)"
      using False unfolding b_def by (metis last_appendR takeWhile_dropWhile_id)
    also have "\<dots> = hd a"
      using False unfolding b_def by (metis dropWhile.simps(1) last_rev rev_is_Nil_conv)
    finally have "hd (rev b) = hd a" .
    moreover have "a \<noteq> []"
      using False unfolding b_def by auto
    then have "\<not> isWhiteSpace (hd a)"
      unfolding a_def by (rule hd_dropWhile)
    ultimately show ?thesis
      using False by (simp add: dropWhile_eq_self_iff)
  qed
  have rear: "dropWhile isWhiteSpace b = b"
    unfolding b_def by (rule dropWhile_idem)
  show ?thesis
    unfolding t by (simp add: trim_def front rear)
qed

lemma clock_ok:
  "timeClip x \<noteq> None \<Longrightarrow> \<exists>stamp. toISOString (timeClip x) = Inr stamp"
  by (auto simp: toISOString_def)

text \<open>
  What an event whose reads work does to the stored codes and timestamps.
\<close>

lemma codes_rename:
  "map qrcode (map (\<lambda>record. if qrcode record = c then record\<lparr>name := n\<rparr> else record) xs)
   = map qrcode xs"
  by (induction xs) auto

lemma codes_saveEdit:
  assumes "mset (records s) = mset (store s)"
  shows "qrcode ` set (store (saveEdit ww s)) = qrcode ` set (store s)"
proof -
  have eq: "set (records s) = set (store s)"
    using assms by (rule mset_eq_setD)
  have "set (map qrcode (map (\<lambda>record. if qrcode record = c then record\<lparr>name := n\<rparr> else record)
      (records s))) = set (map qrcode (records s))" for c n
    by (simp only: codes_rename)
  then have "qrcode ` set (map (\<lambda>record. if qrcode record = c then record\<lparr>name := n\<rparr> else record)
      (records s)) = qrcode ` set (store s)" for c n
    using eq by (simp only: set_map)
  then show ?thesis
    by (simp add: saveEdit_def Let_def split: option.splits)
qed

lemma codes_kept_step:
  assumes "app_ok s" and "c \<in> qrcode ` set (store s)" and "reads_work ev"
    and "\<forall>i ww. ev \<noteq> Delete i True ww"
  shows "c \<in> qrcode ` set (store (step h s ev))"
proof (cases ev)
  case (Scan d rw)
  then show ?thesis using assms by (simp add: scan_fields)
next
  case (Register now rw rr ww)
  then have "rr" using assms(3) by simp
  then show ?thesis
    using Register assms register_store_cases [of h now rw rr ww s]
    by (auto simp: getRecords_def)
next
  case (OpenRecords rw)
  then show ?thesis using assms by (simp add: loadRecords_def)
next
  case (Save ww)
  show ?thesis
  proof (cases "tab s = RecordsTab")
    case True
    then have "mset (records s) = mset (store s)"
      using assms(1) by (simp add: app_ok_def)
    then show ?thesis
      using Save True assms(2) codes_saveEdit by simp
  next
    case False
    then show ?thesis using Save assms by simp
  qed
next
  case (Delete i confirmed ww)
  then have "\<not> confirmed" using assms(4) by auto
  then show ?thesis using Delete assms by (simp add: deleteRecord_def)
next
  case Restart
  then show ?thesis using assms by (simp add: launch_def)
qed (use assms in \<open>auto simp: resetForm_def editRecord_def\<close>)

lemma codes_kept_run:
  assumes "app_ok s" and "c \<in> qrcode ` set (store s)" and "list_all reads_work evs"
    and "\<forall>i ww. Delete i True ww \<notin> set evs"
  shows "c \<in> qrcode ` set (store (run h s evs))"
  using assms
proof (induction evs arbitrary: s)
  case Nil
  then show ?case by (simp add: run_def)
next
  case (Cons ev evs)
  have rw: "reads_work ev" "list_all reads_work evs"
    using Cons.prems(3) by simp_all
  have "app_ok (step h s ev)"
    using Cons.prems(1) rw(1) by (rule app_ok_step)
  moreover have "c \<in> qrcode ` set (store (step h s ev))"
    using Cons.prems rw(1) by (intro codes_kept_step) auto
  moreover have "\<forall>i ww. Delete i True ww \<notin> set evs"
    using Cons.prems(4) by auto
  ultimately have "c \<in> qrcode ` set (store (run h (step h s ev) evs))"
    using rw(2) by (intro Cons.IH)
  then show ?case by (simp add: run_def)
qed

lemma scan_then_register:
  assumes "\<not> isProcessing s" and "trim d \<noteq> []"
  shows "trim (qrValue (fst (handleQRCodeScanned d rw s))) \<noteq> []"
    and "qrValue (fst (handleQRCodeScanned d rw s)) \<noteq> []"
  using assms by (simp_all add: scan_qrValue trim_idem)

lemma count_code:
  assumes "distinct (map qrcode xs)" and "c \<in> qrcode ` set xs"
  shows "length (filter (\<lambda>r. qrcode r = c) xs) = 1"
  using assms
proof (induction xs)
  case Nil
  then show ?case by simp
next
  case (Cons x xs)
  show ?case
  proof (cases "qrcode x = c")
    case True
    from Cons.prems(1) have "qrcode x \<notin> qrcode ` set xs"
      by simp
    then have "\<forall>r\<in>set xs. qrcode r \<noteq> c"
      using True by (metis imageI)
    then have "filter (\<lambda>r. qrcode r = c) xs = []"
      by (simp add: filter_empty_conv)
    then show ?thesis using True by simp
  next
    case False
    then show ?thesis using Cons by auto
  qed
qed

lemma register_not_duplicate:
  assumes "qrValue s \<notin> qrcode ` set (getRecords rw s)"
  shows "snd (handleRegister h now rw rr ww s) \<noteq> Duplicate"
  using assms
  by (simp add: handleRegister_def Let_def list_ex_code split: sum.splits)

lemma store_origin:
  assumes "app_ok s" and "r' \<in> set (store (step h s ev))" and "reads_work ev"
  shows "r' \<in> set (store s) \<or> qrcode r' \<notin> qrcode ` set (store s)
       \<or> (\<exists>r\<in>set (store s). \<exists>n. r' = r\<lparr>name := n\<rparr>)"
proof (cases ev)
  case (Scan d rw)
  then have "store (step h s ev) = store s"
    by (simp add: scan_fields)
  then show ?thesis using assms(2) by simp
next
  case (Register now rw rr ww)
  then have "store (step h s ev) = store s
      \<or> store (step h s ev) = store (fst (handleRegister h now rw rr ww s))"
    by simp
  moreover have "rw"
    using Register assms(3) by simp
  ultimately show ?thesis
    using assms(2) register_store_cases [of h now rw rr ww s]
    by (auto simp: getRecords_def split: if_splits)
next
  case (OpenRecords rw)
  then have "store (step h s ev) = store s"
    by (simp add: loadRecords_def)
  then show ?thesis using assms(2) by simp
next
  case (Save ww)
  show ?thesis
  proof (cases "tab s = RecordsTab")
    case True
    then have eq: "set (records s) = set (store s)"
      using assms(1) by (auto simp: app_ok_def dest: mset_eq_setD)
    have "r' \<in> set (store (saveEdit ww s))"
      using Save True assms(2) by simp
    then have "r' \<in> set (store s) \<or> (\<exists>r\<in>set (records s). \<exists>n. r' = r\<lparr>name := n\<rparr>)
        \<or> r' \<in> set (records s)"
      by (auto simp: saveEdit_def Let_def split: option.splits if_splits)
    then show ?thesis
      using eq by auto
  next
    case False
    then show ?thesis using Save assms(2) by simp
  qed
next
  case (Delete i confirmed ww)
  show ?thesis
  proof (cases "tab s = RecordsTab")
    case True
    then have eq: "set (records s) = set (store s)"
      using assms(1) by (auto simp: app_ok_def dest: mset_eq_setD)
    have "r' \<in> set (store s) \<or> r' \<in> set (records s)"
      using Delete assms(2) by (auto simp: deleteRecord_def Let_def split: if_splits)
    then show ?thesis
      using eq by auto
  next
    case False
    then show ?thesis using Delete assms(2) by simp
  qed
next
  case Restart
  then show ?thesis using assms(2) by (simp add: launch_def)
qed (use assms(2) in \<open>auto simp: resetForm_def editRecord_def split: if_splits\<close>)

lemma timestamp_kept_step:
  assumes "app_ok s" and "r' \<in> set (store (step h s ev))" and "reads_work ev"
    and "qrcode r' \<in> qrcode ` set (store s)"
  shows "\<exists>r\<in>set (store s). qrcode r = qrcode r' \<and> timestamp r = timestamp r'"
proof -
  from store_origin [OF assms(1,2,3)] assms(4)
  have "r' \<in> set (store s) \<or> (\<exists>r\<in>set (store s). \<exists>n. r' = r\<lparr>name := n\<rparr>)"
    by blast
  then show ?thesis
  proof
    assume "r' \<in> set (store s)"
    then show ?thesis by blast
  next
    assume "\<exists>r\<in>set (store s). \<exists>n. r' = r\<lparr>name := n\<rparr>"
    then obtain r n where "r \<in> set (store s)" "r' = r\<lparr>name := n\<rparr>"
      by blast
    then have "qrcode r = qrcode r' \<and> timestamp r = timestamp r'"
      by simp
    then show ?thesis
      using \<open>r \<in> set (store s)\<close> by blast
  qed
qed

lemma iso_stamped_step:
  assumes "iso_stamped (store s)" and "iso_stamped (records s)"
  shows "iso_stamped (store (step h s ev)) \<and> iso_stamped (records (step h s ev))"
proof (cases ev)
  case (Scan d rw)
  then show ?thesis using assms by (simp add: scan_fields)
next
  case (Register now rw rr ww)
  have "iso_stamped (store (fst (handleRegister h now rw rr ww s)))"
  proof (cases "toISOString (timeClip (now + tzOffset h now * 60000 + 10800000))")
    case (Inl e)
    then show ?thesis
      using assms(1) by (simp add: handleRegister_def Let_def)
  next
    case (Inr stamp)
    then have "\<exists>t. toISOString (timeClip t) = Inr stamp"
      by blast
    then show ?thesis
      using assms(1) Inr
      by (auto simp: handleRegister_def Let_def saveRecord_def getRecords_def iso_stamped_def)
  qed
  then show ?thesis
    using Register assms by (simp add: register_fields)
next
  case (OpenRecords rw)
  have "set (array_sort (compareFn h) (store s)) = set (store s)"
    using mset_array_sort by (rule mset_eq_setD)
  then show ?thesis
    using OpenRecords assms by (simp add: loadRecords_def iso_stamped_def)
next
  case (Save ww)
  have "iso_stamped (map (\<lambda>record. if qrcode record = c then record\<lparr>name := n\<rparr> else record)
      (records s))" for c n
    using assms(2) by (auto simp: iso_stamped_def)
  then show ?thesis
    using Save assms by (simp add: saveEdit_def Let_def split: option.splits)
next
  case (Delete i confirmed ww)
  have "iso_stamped (filter P (records s))" for P
    using assms(2) by (simp add: iso_stamped_def)
  then show ?thesis
    using Delete assms by (simp add: deleteRecord_def Let_def)
next
  case Restart
  then show ?thesis using assms by (simp add: launch_def iso_stamped_def)
qed (use assms in \<open>auto simp: resetForm_def editRecord_def\<close>)

lemma iso_stamped_run:
  assumes "iso_stamped (store s)" and "iso_stamped (records s)"
  shows "iso_stamped (store (run h s evs))"
  using assms unfolding run_def
proof (induction evs arbitrary: s)
  case Nil
  then show ?case by simp
next
  case (Cons ev evs)
  then show ?case
    using iso_stamped_step [of s h ev] by simp
qed

lemma stored_timestamps_iso: "iso_stamped (store (run h (launch []) evs))"
  by (rule iso_stamped_run) (simp_all add: launch_def iso_stamped_def)

section \<open>The states the browser app can reach\<close>

lemma web_ok_launch: "web_ok (web_launch Map.empty)"
  by (simp add: web_ok_def web_launch_def)

lemma submit_db_cases:
  "db (fst (handleFormSubmission now w)) = db w
   \<or> (\<exists>stamp. trim (qrcodeValue w) \<noteq> [] \<and> db w (trim (qrcodeValue w)) = None
        \<and> db (fst (handleFormSubmission now w))
            = (db w)(trim (qrcodeValue w) \<mapsto>
                \<lparr>qrcode = trim (qrcodeValue w),
                 name = or_else (trim (personNameValue w)) (lit ''Unnamed''),
                 timestamp = stamp, timezoneOffset = Some 180\<rparr>))"
  by (auto simp: handleFormSubmission_def Let_def put_def clearForm_def
      split: option.splits sum.splits)

lemma submit_new:
  assumes "trim (qrcodeValue w) \<noteq> []" and "db w (trim (qrcodeValue w)) = None"
    and "toISOString (timeClip now) = Inr stamp"
  defines "r \<equiv> \<lparr>qrcode = trim (qrcodeValue w),
                  name = or_else (trim (personNameValue w)) (lit ''Unnamed''),
                  timestamp = stamp, timezoneOffset = Some 180\<rparr>"
  shows "snd (handleFormSubmission now w) = SubmitRegistered r"
    and "db (fst (handleFormSubmission now w)) = (db w)(trim (qrcodeValue w) \<mapsto> r)"
  using assms by (simp_all add: handleFormSubmission_def Let_def put_def clearForm_def)

lemma web_ok_submit:
  assumes "web_ok w"
  shows "web_ok (fst (handleFormSubmission now w))"
proof -
  from submit_db_cases [of now w] show ?thesis
  proof
    assume "db (fst (handleFormSubmission now w)) = db w"
    then show ?thesis using assms by (simp add: web_ok_def)
  next
    assume "\<exists>stamp. trim (qrcodeValue w) \<noteq> [] \<and> db w (trim (qrcodeValue w)) = None
        \<and> db (fst (handleFormSubmission now w))
            = (db w)(trim (qrcodeValue w) \<mapsto>
                \<lparr>qrcode = trim (qrcodeValue w),
                 name = or_else (trim (personNameValue w)) (lit ''Unnamed''),
                 timestamp = stamp, timezoneOffset = Some 180\<rparr>)"
    then obtain stamp where ne: "trim (qrcodeValue w) \<noteq> []"
      and d: "db (fst (handleFormSubmission now w))
            = (db w)(trim (qrcodeValue w) \<mapsto>
                \<lparr>qrcode = trim (qrcodeValue w),
                 name = or_else (trim (personNameValue w)) (lit ''Unnamed''),
                 timestamp = stamp, timezoneOffset = Some 180\<rparr>)"
      by blast
    show ?thesis
      unfolding web_ok_def
    proof (intro allI impI)
      fix k r
      assume kr: "db (fst (handleFormSubmission now w)) k = Some r"
      show "qrcode r = k \<and> name r \<noteq> [] \<and> k \<noteq> []"
      proof (cases "k = trim (qrcodeValue w)")
        case True
        then show ?thesis
          using kr ne or_else_nonempty [OF lit_Unnamed, of "trim (personNameValue w)"]
          by (auto simp: d)
      next
        case False
        then have "db w k = Some r"
          using kr by (simp add: d)
        then show ?thesis
          using assms by (simp add: web_ok_def)
      qed
    qed
  qed
qed

lemma web_ok_edit:
  assumes "web_ok w"
  shows "web_ok (web_editRecord c answer w)"
  using assms
  by (auto simp: web_ok_def web_editRecord_def put_def split: option.splits if_splits)

lemma web_ok_delete:
  assumes "web_ok w"
  shows "web_ok (web_deleteRecord c confirmed w)"
  using assms by (auto simp: web_ok_def web_deleteRecord_def)

lemma web_ok_step:
  assumes "web_ok w"
  shows "web_ok (web_step w ev)"
proof (cases ev)
  case (WebSubmit now)
  then show ?thesis using assms web_ok_submit by simp
next
  case (WebEdit c answer)
  then show ?thesis using assms web_ok_edit by simp
next
  case (WebDelete c confirmed)
  then show ?thesis using assms web_ok_delete by simp
qed (use assms in \<open>auto simp: web_ok_def onScanSuccess_def\<close>)

lemma web_ok_run: "web_ok w \<Longrightarrow> web_ok (web_run w evs)"
  unfolding web_run_def by (induction evs arbitrary: w) (simp_all add: web_ok_step)

lemma or_else_name: "or_else (trim nm) (lit ''Unnamed'') = (if trim nm = [] then lit ''Unnamed'' else trim nm)"
  by (simp add: or_else_def)

lemma trim_nonempty_arg: "trim d \<noteq> [] \<Longrightarrow> d \<noteq> []"
  by (auto simp: trim_def)

lemma run_Nil: "run h s [] = s" "web_run w [] = w"
  by (simp_all add: run_def web_run_def)

lemma trim_blank: "trim (lit ''  '') = []"
  by (simp add: trim_def lit_def isWhiteSpace_def)

lemma edit_missing:
  assumes "db w code = None"
  shows "web_editRecord code answer w = w"
  using assms by (simp add: web_editRecord_def)

lemma edit_found:
  assumes "web_ok w" and "db w code = Some r"
  shows "db (web_editRecord code (Some n) w)
         = (if trim n = [] then db w else (db w)(code \<mapsto> r\<lparr>name := trim n\<rparr>))"
    and "db (web_editRecord code None w) = db w"
proof -
  have "qrcode r = code"
    using assms by (simp add: web_ok_def)
  then show "db (web_editRecord code (Some n) w)
         = (if trim n = [] then db w else (db w)(code \<mapsto> r\<lparr>name := trim n\<rparr>))"
    using assms(2) by (simp add: web_editRecord_def put_def)
  show "db (web_editRecord code None w) = db w"
    using assms(2) by (simp add: web_editRecord_def)
qed

section \<open>The formatters at a known instant\<close>

text \<open>
  C3. The instant 2024-01-01T00:00:00Z is 1704067200000 ms. On every host
  that reads the string as that instant and whose zone has a fixed offset (of
  at most a day), both CSV formatters return \<^verbatim>\<open>01/01/2024 03:00:00 EAT\<close> and
  both display formatters \<^verbatim>\<open>Jan 1, 2024, 3:00 AM EAT\<close>: the offset added
  before the shift is the one the getters take away again.
\<close>

theorem epoch_2024_formats:
  assumes parse: "dateParse h (lit ''2024-01-01T00:00:00Z'') = Some 1704067200000"
    and fixed: "\<forall>t. tzOffset h t = off" and off: "\<bar>off\<bar> \<le> 1440"
  shows "formatCSVTime h (Some (lit ''2024-01-01T00:00:00Z'')) = lit ''01/01/2024 03:00:00 EAT''
       \<and> formatDisplayTime h (Some (lit ''2024-01-01T00:00:00Z'')) = lit ''Jan 1, 2024, 3:00 AM EAT''
       \<and> web_formatCSVTime h now (Some (lit ''2024-01-01T00:00:00Z'')) = lit ''01/01/2024 03:00:00 EAT''
       \<and> web_formatDisplayTime h now (Some (lit ''2024-01-01T00:00:00Z'')) = lit ''Jan 1, 2024, 3:00 AM EAT''"
proof -
  let ?ts = "lit ''2024-01-01T00:00:00Z''"
  define e where "e = 1704067200000 + off * 60000 + 10800000"
  have ne: "\<not> falsy (Some ?ts)"
    by (simp add: falsy_def lit_def)
  have nd: "newDate h ?ts = Some 1704067200000"
    by (simp add: newDate_def parse timeClip_def)
  have off_eq: "tzOffset h 1704067200000 = off"
    using fixed by simp
  have clip: "timeClip (1704067200000 + off * 60000 + 10800000) = Some e"
    using off by (simp add: timeClip_def e_def)
  have loc: "localTime h e = 1704078000000"
    using fixed by (simp add: localTime_def e_def)
  have csv: "csvString h (Some e) = lit ''01/01/2024 03:00:00 EAT''"
    unfolding csvString_def Let_def getMonth_def getDate_def getFullYear_def getHours_def
      getMinutes_def getSeconds_def
    by (simp add: loc fields_1704078000000 eval_string)
  have disp: "displayString h (Some e) = lit ''Jan 1, 2024, 3:00 AM EAT''"
    unfolding displayString_def Let_def getMonth_def getDate_def getFullYear_def getHours_def
      getMinutes_def
    by (simp add: loc fields_1704078000000 eval_string)
  have eat: "toEATTime h now (Some ?ts) = Some e"
    using ne clip by (simp add: toEATTime_def nd off_eq)
  show ?thesis
    using ne clip by (simp add: formatCSVTime_def formatDisplayTime_def web_formatCSVTime_def
        web_formatDisplayTime_def nd off_eq csv disp eat Let_def)
qed

theorem epoch_2024_formats_witness:
  "dateParse (fixedHost 300) (lit ''2024-01-01T00:00:00Z'') = Some 1704067200000
   \<and> (\<forall>t. tzOffset (fixedHost 300) t = 300) \<and> \<bar>300::int\<bar> \<le> 1440
   \<and> formatCSVTime (fixedHost 300) (Some (lit ''2024-01-01T00:00:00Z'')) = lit ''01/01/2024 03:00:00 EAT''
   \<and> formatDisplayTime (fixedHost 300) (Some (lit ''2024-01-01T00:00:00Z'')) = lit ''Jan 1, 2024, 3:00 AM EAT''
   \<and> web_formatCSVTime (fixedHost 300) 0 (Some (lit ''2024-01-01T00:00:00Z'')) = lit ''01/01/2024 03:00:00 EAT''
   \<and> web_formatDisplayTime (fixedHost 300) 0 (Some (lit ''2024-01-01T00:00:00Z'')) = lit ''Jan 1, 2024, 3:00 AM EAT''"
proof -
  have p: "dateParse (fixedHost 300) (lit ''2024-01-01T00:00:00Z'') = Some 1704067200000"
    by (simp add: fixedHost_def isoParse_2024)
  have f: "\<forall>t. tzOffset (fixedHost 300) t = 300"
    by (simp add: fixedHost_def)
  have b: "\<bar>300::int\<bar> \<le> 1440"
    by simp
  show ?thesis
    using p f b epoch_2024_formats [OF p f b, of 0] by blast
qed

section \<open>What the formatters do with a missing or unreadable timestamp\<close>


lemma formatDisplayTime_absent:
  "formatDisplayTime h None = lit ''Unknown date''" "formatDisplayTime h (Some []) = lit ''Unknown date''"
  "formatCSVTime h None = lit ''N/A''" "formatCSVTime h (Some []) = lit ''N/A''"
  by (simp_all add: formatDisplayTime_def formatCSVTime_def falsy_simps)

lemma web_format_absent:
  "web_formatDisplayTime h now None = lit ''Unknown date''"
  "web_formatDisplayTime h now (Some []) = lit ''Unknown date''"
  "web_formatCSVTime h now None = lit ''N/A''" "web_formatCSVTime h now (Some []) = lit ''N/A''"
  by (simp_all add: web_formatDisplayTime_def web_formatCSVTime_def falsy_simps)

lemma format_invalid:
  assumes "newDate h ts = None"
  shows "formatDisplayTime h (Some ts) = (if ts = [] then lit ''Unknown date'' else lit ''Invalid date'')"
    and "formatCSVTime h (Some ts) = lit ''N/A''"
  using assms by (simp_all add: formatDisplayTime_def formatCSVTime_def falsy_simps)

lemma displayString_invalid: "displayString h None = lit ''undefined NaN, NaN, 12:NaN AM EAT''"
  unfolding displayString_def Let_def getMonth_def getDate_def getFullYear_def getHours_def
    getMinutes_def
  by (simp add: eval_string)

lemma csvString_invalid: "csvString h None = lit ''NaN/NaN/NaN NaN:NaN:NaN EAT''"
  unfolding csvString_def Let_def getMonth_def getDate_def getFullYear_def getHours_def
    getMinutes_def getSeconds_def
  by (simp add: eval_string)

lemma web_format_invalid:
  assumes "newDate h ts = None" and "ts \<noteq> []"
  shows "web_formatDisplayTime h now (Some ts) = lit ''undefined NaN, NaN, 12:NaN AM EAT''"
    and "web_formatCSVTime h now (Some ts) = lit ''NaN/NaN/NaN NaN:NaN:NaN EAT''"
  using assms by (simp_all add: web_formatDisplayTime_def web_formatCSVTime_def falsy_simps
      toEATTime_def displayString_invalid csvString_invalid)

lemma isoParse_not_a_date: "isoParse (lit ''not a date'') = None"
  unfolding isoParse_def isoFields_def lit_def by simp

text \<open>
  C4. A missing or empty timestamp gives \<^verbatim>\<open>Unknown date\<close> and \<^verbatim>\<open>N/A\<close> in both
  apps (\<open>formatDisplayTime_absent\<close>, \<open>web_format_absent\<close>), and the formatters
  of \<^verbatim>\<open>records.tsx\<close> answer \<^verbatim>\<open>Invalid date\<close> and \<^verbatim>\<open>N/A\<close> to a timestamp that is
  not a date (\<open>format_invalid\<close>). Those of \<^verbatim>\<open>app.js\<close> have no such check
  (\<open>web_format_invalid\<close>): for the timestamp \<^verbatim>\<open>not a date\<close> they print the
  fields of an invalid date.
\<close>

theorem web_formatters_print_invalid_date:
  "newDate (fixedHost 0) (lit ''not a date'') = None
   \<and> formatDisplayTime (fixedHost 0) (Some (lit ''not a date'')) = lit ''Invalid date''
   \<and> formatCSVTime (fixedHost 0) (Some (lit ''not a date'')) = lit ''N/A''
   \<and> web_formatDisplayTime (fixedHost 0) 0 (Some (lit ''not a date''))
       = lit ''undefined NaN, NaN, 12:NaN AM EAT''
   \<and> web_formatCSVTime (fixedHost 0) 0 (Some (lit ''not a date''))
       = lit ''NaN/NaN/NaN NaN:NaN:NaN EAT''"
proof -
  have nd: "newDate (fixedHost 0) (lit ''not a date'') = None"
    by (simp add: newDate_def fixedHost_def isoParse_not_a_date)
  have ne: "lit ''not a date'' \<noteq> []"
    by (simp add: lit_def)
  show ?thesis
    using nd ne format_invalid [OF nd] web_format_invalid [OF nd ne] by simp
qed

section \<open>The twelve-hour clock\<close>


lemma hourFromTime_range: "0 \<le> hourFromTime t \<and> hourFromTime t < 24"
  by (simp add: hourFromTime_def)

lemma hours12_Some:
  assumes "0 \<le> x" and "x < 24"
  shows "hours12 (Some x) = Some (if x = 0 then 12 else if x \<le> 12 then x else x - 12)"
proof -
  have "sgn x * (\<bar>x\<bar> mod 12) = x mod 12"
    using assms by (cases "x = 0") (simp_all add: sgn_if)
  moreover have "x mod 12 = (if x < 12 then x else x - 12)"
    using assms by (simp add: mod_pos_pos_trivial minus_mod_eq_mult_div [symmetric]) presburger
  ultimately show ?thesis
    using assms by (auto simp: hours12_def num_rem_def truthy_def Let_def)
qed

lemma hours12_None: "hours12 None = Some 12"
  by (simp add: hours12_def num_rem_def truthy_def)

lemma ampmOf_Some: "ampmOf (Some x) = (if x < 12 then lit ''AM'' else lit ''PM'')"
  by (auto simp: ampmOf_def num_ge_def)

lemma ampmOf_None: "ampmOf None = lit ''AM''"
  by (simp add: ampmOf_def num_ge_def)

lemma hour_not_zero:
  assumes "1 \<le> k" and "k \<le> (12::int)"
  shows "toString (Some k) \<noteq> lit ''0''"
proof -
  from assms have "k = 1 \<or> k = 2 \<or> k = 3 \<or> k = 4 \<or> k = 5 \<or> k = 6 \<or> k = 7 \<or> k = 8 \<or> k = 9
      \<or> k = 10 \<or> k = 11 \<or> k = 12"
    by arith
  then show ?thesis
    by (elim disjE) (simp_all add: toString_def digits_small digits_large lit_def)
qed

text \<open>
  C10. For a timestamp that is a date, both display formatters print the same
  string, and the hour in it is \<open>k\<close>, between 1 and 12: 12 for the hour 0
  of the shifted date (with AM) and for the hour 12 (with PM), the hour less
  12 from 13 to 23 (with PM), the hour itself otherwise (with AM); and 12 AM
  should the shifted date fall outside the range of dates. The printed hour
  is never \<^verbatim>\<open>0\<close>.
\<close>

theorem display_hour_between_1_and_12:
  assumes "ts \<noteq> []" and "newDate h ts = Some t"
  defines "e \<equiv> timeClip (t + tzOffset h t * 60000 + 10800000)"
  defines "k \<equiv> (case getHours h e of None \<Rightarrow> 12
                  | Some x \<Rightarrow> if x = 0 then 12 else if x \<le> 12 then x else x - 12)"
  defines "ap \<equiv> (case getHours h e of None \<Rightarrow> lit ''AM''
                   | Some x \<Rightarrow> if x < 12 then lit ''AM'' else lit ''PM'')"
  shows "1 \<le> k \<and> k \<le> 12
       \<and> formatDisplayTime h (Some ts)
           = monthName (getMonth h e) @ lit '' '' @ toString (getDate h e) @ lit '', ''
             @ toString (getFullYear h e) @ lit '', '' @ toString (Some k) @ lit '':''
             @ padStart 2 (toString (getMinutes h e)) @ lit '' '' @ ap @ lit '' EAT''
       \<and> web_formatDisplayTime h now (Some ts) = formatDisplayTime h (Some ts)
       \<and> toString (Some k) \<noteq> lit ''0''"
proof -
  have hk: "hours12 (getHours h e) = Some k" and ha: "ampmOf (getHours h e) = ap"
   and range: "1 \<le> k \<and> k \<le> 12"
  proof -
    show "hours12 (getHours h e) = Some k"
      using hourFromTime_range
      by (cases e) (simp_all add: k_def getHours_def hours12_None hours12_Some)
    show "ampmOf (getHours h e) = ap"
      by (cases e) (simp_all add: ap_def getHours_def ampmOf_None ampmOf_Some)
    show "1 \<le> k \<and> k \<le> 12"
    proof (cases e)
      case None
      then show ?thesis by (simp add: k_def getHours_def)
    next
      case (Some u)
      then show ?thesis
        using hourFromTime_range [of "localTime h u"] by (auto simp: k_def getHours_def)
    qed
  qed
  have disp: "displayString h e
      = monthName (getMonth h e) @ lit '' '' @ toString (getDate h e) @ lit '', ''
        @ toString (getFullYear h e) @ lit '', '' @ toString (Some k) @ lit '':''
        @ padStart 2 (toString (getMinutes h e)) @ lit '' '' @ ap @ lit '' EAT''"
    by (simp add: displayString_def Let_def hk ha)
  have mob: "formatDisplayTime h (Some ts) = displayString h e"
    using assms(1,2) by (simp add: formatDisplayTime_def falsy_simps Let_def e_def)
  have web: "web_formatDisplayTime h now (Some ts) = displayString h e"
    using assms(1,2)
    by (simp add: web_formatDisplayTime_def toEATTime_def falsy_simps Let_def e_def)
  show ?thesis
    using range hour_not_zero [of k] by (simp add: mob web disp)
qed

lemma civil_19724: "civil 19724 = (2024, 0, 2)"
  unfolding civil_def Let_def by simp

lemma fields_1704153909000:
  "yearFromTime 1704153909000 = 2024" "monthFromTime 1704153909000 = 0"
  "dateFromTime 1704153909000 = 2" "hourFromTime 1704153909000 = 0"
  "minFromTime 1704153909000 = 5"
  by (simp_all add: yearFromTime_def monthFromTime_def dateFromTime_def hourFromTime_def
      minFromTime_def civil_19724)

theorem display_hour_between_1_and_12_witness:
  "lit ''2024-01-01T21:05:09Z'' \<noteq> []
   \<and> newDate (fixedHost 0) (lit ''2024-01-01T21:05:09Z'') = Some 1704143109000
   \<and> formatDisplayTime (fixedHost 0) (Some (lit ''2024-01-01T21:05:09Z''))
       = lit ''Jan 2, 2024, 12:05 AM EAT''
   \<and> web_formatDisplayTime (fixedHost 0) 0 (Some (lit ''2024-01-01T21:05:09Z''))
       = lit ''Jan 2, 2024, 12:05 AM EAT''"
proof -
  have ne: "lit ''2024-01-01T21:05:09Z'' \<noteq> []"
    by (simp add: lit_def)
  have nd: "newDate (fixedHost 0) (lit ''2024-01-01T21:05:09Z'') = Some 1704143109000"
    by (simp add: newDate_def fixedHost_def isoParse_2105 timeClip_def)
  have off: "tzOffset (fixedHost 0) = (\<lambda>_. 0)"
    by (simp add: fixedHost_def)
  have loc: "localTime (fixedHost 0) 1704153909000 = 1704153909000"
    by (simp add: localTime_def off)
  have str: "monthName (Some 0) @ lit '' '' @ toString (Some 2) @ lit '', ''
             @ toString (Some 2024) @ lit '', '' @ toString (Some 12) @ lit '':''
             @ padStart 2 (toString (Some 5)) @ lit '' '' @ lit ''AM'' @ lit '' EAT''
             = lit ''Jan 2, 2024, 12:05 AM EAT''"
    by (simp add: eval_string)
  show ?thesis
    using ne nd display_hour_between_1_and_12 [OF ne nd, of 0] str
    by (simp add: off timeClip_def getHours_def getMonth_def getDate_def getFullYear_def
        getMinutes_def loc fields_1704153909000)
qed

section \<open>The exported CSV text\<close>

lemma replace_quotes_concat:
  "replace_quotes s = concat (map (\<lambda>c. if c = 0x22 then [0x22, 0x22] else [c]) s)"
  by (induction s) simp_all

lemma csv_quoted_replace: "csv_quoted s = [0x22] @ replace_quotes s @ [0x22]"
  by (simp add: csv_quoted_def replace_quotes_concat)

lemma replace_quotes_none: "0x22 \<notin> set s \<Longrightarrow> replace_quotes s = s"
  by (induction s) auto

lemma or_else_empty: "or_else s [] = s"
  by (simp add: or_else_def)

lemma csvRow_line: "csvRow h r = csv_line (formatCSVTime h) r"
  by (simp add: csvRow_def csv_line_def csv_quoted_def Let_def or_else_empty replace_quotes_concat)

lemma web_csvRow_line: "web_csvRow h now r = csv_line (web_formatCSVTime h now) r"
  by (simp add: web_csvRow_def csv_line_def csv_quoted_def Let_def or_else_empty
      replace_quotes_concat)

lemma digit_chars: "set (digits n) \<subseteq> set (lit ''0123456789'')"
proof (induction n rule: digits.induct)
  case (1 n)
  have d: "(0x30 + of_nat k :: 16 word) \<in> set (lit ''0123456789'')" if "k < 10" for k :: nat
  proof -
    from that have "k = 0 \<or> k = 1 \<or> k = 2 \<or> k = 3 \<or> k = 4 \<or> k = 5 \<or> k = 6 \<or> k = 7 \<or> k = 8
        \<or> k = 9"
      by arith
    then show ?thesis
      by (elim disjE) (simp_all add: lit_def)
  qed
  show ?case
  proof (cases "n < 10")
    case True
    then show ?thesis using d [of n] by (simp add: digits_small)
  next
    case False
    then show ?thesis
      using "1.IH" d [of "n mod 10"] by (simp add: digits_large)
  qed
qed

lemma lit_digits_sub: "set (lit ''0123456789'') \<subseteq> date_chars"
  by (simp add: date_chars_def lit_def)

lemma toString_chars: "set (toString x) \<subseteq> date_chars"
proof (cases x)
  case None
  then show ?thesis by (simp add: toString_def date_chars_def lit_def)
next
  case (Some i)
  have "set (lit ''-'') \<subseteq> date_chars"
    by (simp add: date_chars_def lit_def)
  then show ?thesis
    using Some digit_chars lit_digits_sub by (auto simp: toString_def)
qed

lemma padStart_chars: "set s \<subseteq> date_chars \<Longrightarrow> set (padStart n s) \<subseteq> date_chars"
  by (auto simp: padStart_def date_chars_def lit_def)

lemma csvString_chars: "set (csvString h e) \<subseteq> date_chars"
proof -
  have l: "set (lit ''/'') \<subseteq> date_chars" "set (lit '' '') \<subseteq> date_chars"
    "set (lit '':'') \<subseteq> date_chars" "set (lit '' EAT'') \<subseteq> date_chars"
    by (simp_all add: date_chars_def lit_def)
  show ?thesis
    unfolding csvString_def Let_def
    using l by (simp add: padStart_chars toString_chars)
qed

lemma date_chars_plain: "0x22 \<notin> date_chars" "0x0A \<notin> date_chars"
  by (simp_all add: date_chars_def lit_def)

lemma csvString_suffix: "\<exists>d. csvString h e = d @ lit '' EAT''"
  unfolding csvString_def Let_def
  by (metis append.assoc)


lemma array_sort_single: "array_sort cmp [x] = [x]"
  by (simp add: array_sort_def)

lemma header_one_line: "filter (\<lambda>c. c = 0x0A) csvHeader = [0x0A]"
  by (simp add: csvHeader_def lit_def)

lemma join_lines: "join [c] xs = butlast (concat (map (\<lambda>x. x @ [c]) xs))"
  by (induction "[c]" xs rule: join.induct) (simp_all add: butlast_append)

text \<open>
  C7. The text built by both exports is the header line
  \<^verbatim>\<open>Name,QR Code,Registration Date (EAT)\<close> followed by the rows of the records
  in their order (in \<^verbatim>\<open>app.js\<close>, the order of its listing), each row being the
  three quoted fields: it is the text in which every row ends with a line
  feed, without the last line feed. An empty list is refused. For the record
  with code \<^verbatim>\<open>A"B\<close>, name \<^verbatim>\<open>Jo,e\<close> and a timestamp \<open>T\<close> that is a date, the text
  is the header line and the one line \<^verbatim>\<open>"Jo,e","A""B","d EAT"\<close>, with \<open>d EAT\<close>
  the formatted date.
\<close>

theorem csv_export_rows:
  fixes z :: "int option"
  assumes "T \<noteq> []" and "newDate h T = Some t"
  defines "r \<equiv> \<lparr>qrcode = lit ''A'' @ [0x22] @ lit ''B'', name = lit ''Jo,e'', timestamp = T,
                  timezoneOffset = z\<rparr>"
  shows "csvContent h recs
           = lit ''Name,QR Code,Registration Date (EAT)'' @ [0x0A]
             @ butlast (concat (map (\<lambda>record. csv_line (formatCSVTime h) record @ [0x0A]) recs))
       \<and> exportToCSV h s = (if records s = [] then None else Some (csvContent h (records s)))
       \<and> web_exportToCSV h now recs
           = (if recs = [] then None
              else Some (lit ''Name,QR Code,Registration Date (EAT)'' @ [0x0A]
                @ butlast (concat (map (\<lambda>record. csv_line (web_formatCSVTime h now) record @ [0x0A])
                    (web_loadRecords h recs)))))
       \<and> (\<exists>d. formatCSVTime h (Some T) = d @ lit '' EAT''
            \<and> csvContent h [r]
                = lit ''Name,QR Code,Registration Date (EAT)'' @ [0x0A]
                  @ [0x22] @ lit ''Jo,e'' @ [0x22] @ lit '','' @ [0x22] @ lit ''A'' @ [0x22, 0x22]
                  @ lit ''B'' @ [0x22] @ lit '','' @ [0x22] @ d @ lit '' EAT'' @ [0x22]
            \<and> web_exportToCSV h now [r] = Some (csvContent h [r])
            \<and> length (filter (\<lambda>c. c = 0x0A) (csvContent h [r])) = 1)"
proof -
  let ?e = "timeClip (t + tzOffset h t * 60000 + 10800000)"
  have rows: "join [0x0A] (map (csvRow h) recs)
      = butlast (concat (map (\<lambda>record. csv_line (formatCSVTime h) record @ [0x0A]) recs))"
    for recs
    by (simp add: join_lines csvRow_line comp_def)
  have wrows: "join [0x0A] (map (web_csvRow h now) recs)
      = butlast (concat (map (\<lambda>record. csv_line (web_formatCSVTime h now) record @ [0x0A]) recs))"
    for recs
    by (simp add: join_lines web_csvRow_line comp_def)
  have general: "csvContent h recs
      = lit ''Name,QR Code,Registration Date (EAT)'' @ [0x0A]
        @ butlast (concat (map (\<lambda>record. csv_line (formatCSVTime h) record @ [0x0A]) recs))"
    for recs
    by (simp add: csvContent_def csvHeader_def Let_def rows)
  have mobile: "exportToCSV h s = (if records s = [] then None else Some (csvContent h (records s)))"
    by (simp add: exportToCSV_def)
  have webg: "web_exportToCSV h now recs
      = (if recs = [] then None
         else Some (lit ''Name,QR Code,Registration Date (EAT)'' @ [0x0A]
           @ butlast (concat (map (\<lambda>record. csv_line (web_formatCSVTime h now) record @ [0x0A])
               (web_loadRecords h recs)))))"
    for recs
    by (simp add: web_exportToCSV_def csvHeader_def Let_def wrows web_loadRecords_def)
  obtain d where d: "csvString h ?e = d @ lit '' EAT''"
    using csvString_suffix by blast
  have fmt: "formatCSVTime h (Some T) = d @ lit '' EAT''"
    and wfmt: "web_formatCSVTime h now (Some T) = d @ lit '' EAT''"
    using format_valid [OF assms(1,2)] d by simp_all
  have dch: "set (d @ lit '' EAT'') \<subseteq> date_chars"
    using csvString_chars [of h ?e] d by simp
  have plain: "0x22 \<notin> set (d @ lit '' EAT'')" "0x0A \<notin> set (d @ lit '' EAT'')"
    using dch date_chars_plain by blast+
  have quoted_date: "csv_quoted (d @ lit '' EAT'') = [0x22] @ d @ lit '' EAT'' @ [0x22]"
    by (simp only: csv_quoted_replace replace_quotes_none [OF plain(1)] append_assoc)
  have line: "csv_line (formatCSVTime h) r
      = [0x22] @ lit ''Jo,e'' @ [0x22] @ lit '','' @ [0x22] @ lit ''A'' @ [0x22, 0x22]
        @ lit ''B'' @ [0x22] @ lit '','' @ [0x22] @ d @ lit '' EAT'' @ [0x22]"
    unfolding csv_line_def r_def
    by (simp add: fmt quoted_date) (simp add: csv_quoted_def lit_def)
  have wline: "csv_line (web_formatCSVTime h now) r = csv_line (formatCSVTime h) r"
    by (simp add: csv_line_def r_def fmt wfmt)
  have single: "csvContent h [r]
      = lit ''Name,QR Code,Registration Date (EAT)'' @ [0x0A]
        @ [0x22] @ lit ''Jo,e'' @ [0x22] @ lit '','' @ [0x22] @ lit ''A'' @ [0x22, 0x22]
        @ lit ''B'' @ [0x22] @ lit '','' @ [0x22] @ d @ lit '' EAT'' @ [0x22]"
  proof -
    have "csvContent h [r]
        = lit ''Name,QR Code,Registration Date (EAT)'' @ [0x0A] @ csv_line (formatCSVTime h) r"
      unfolding general by simp
    then show ?thesis
      by (simp only: line)
  qed
  have wsingle: "web_exportToCSV h now [r] = Some (csvContent h [r])"
    using webg [of "[r]"] general [of "[r]"]
    by (simp add: web_loadRecords_def array_sort_single wline)
  have nolf: "filter (\<lambda>c. c = 0x0A) (d @ lit '' EAT'') = []"
    using plain(2) by (auto simp: filter_empty_conv)
  have one: "length (filter (\<lambda>c. c = 0x0A) (csvContent h [r])) = 1"
    unfolding single using nolf by (simp add: lit_def)
  show ?thesis
    using general mobile webg fmt single wsingle one by blast
qed

theorem csv_export_rows_witness:
  "lit ''2024-01-01T00:00:00Z'' \<noteq> []
   \<and> newDate (fixedHost 0) (lit ''2024-01-01T00:00:00Z'') = Some 1704067200000
   \<and> csvContent (fixedHost 0)
        [\<lparr>qrcode = lit ''A'' @ [0x22] @ lit ''B'', name = lit ''Jo,e'',
          timestamp = lit ''2024-01-01T00:00:00Z'', timezoneOffset = None\<rparr>]
      = lit ''Name,QR Code,Registration Date (EAT)'' @ [0x0A]
        @ [0x22] @ lit ''Jo,e'' @ [0x22] @ lit '','' @ [0x22] @ lit ''A'' @ [0x22, 0x22]
        @ lit ''B'' @ [0x22] @ lit '','' @ [0x22] @ lit ''01/01/2024 03:00:00 EAT'' @ [0x22]
   \<and> csvContent (fixedHost 0)
        [\<lparr>qrcode = lit ''A'' @ [0x22] @ lit ''B'', name = lit ''Jo,e'',
          timestamp = lit ''2024-01-01T00:00:00Z'', timezoneOffset = None\<rparr>,
         sample ''C'' ''Cy'' ''2024-01-01T00:00:00Z'',
         sample ''D'' ''Di'' ''2024-01-01T00:00:00Z'']
      = lit ''Name,QR Code,Registration Date (EAT)'' @ [0x0A]
        @ [0x22] @ lit ''Jo,e'' @ [0x22] @ lit '','' @ [0x22] @ lit ''A'' @ [0x22, 0x22]
        @ lit ''B'' @ [0x22] @ lit '','' @ [0x22] @ lit ''01/01/2024 03:00:00 EAT'' @ [0x22]
        @ [0x0A]
        @ [0x22] @ lit ''Cy'' @ [0x22] @ lit '','' @ [0x22] @ lit ''C'' @ [0x22] @ lit '',''
        @ [0x22] @ lit ''01/01/2024 03:00:00 EAT'' @ [0x22]
        @ [0x0A]
        @ [0x22] @ lit ''Di'' @ [0x22] @ lit '','' @ [0x22] @ lit ''D'' @ [0x22] @ lit '',''
        @ [0x22] @ lit ''01/01/2024 03:00:00 EAT'' @ [0x22]"
proof -
  let ?r = "\<lparr>qrcode = lit ''A'' @ [0x22] @ lit ''B'', name = lit ''Jo,e'',
          timestamp = lit ''2024-01-01T00:00:00Z'', timezoneOffset = None\<rparr>"
  let ?c = "sample ''C'' ''Cy'' ''2024-01-01T00:00:00Z''"
  let ?d = "sample ''D'' ''Di'' ''2024-01-01T00:00:00Z''"
  have ne: "lit ''2024-01-01T00:00:00Z'' \<noteq> []"
    by (simp add: lit_def)
  note inst = csv_export_rows [where z = None and now = 0 and h = "fixedHost 0"
      and recs = "[?r, ?c, ?d]", OF ne newDate_2024]
  from inst obtain d
    where "formatCSVTime (fixedHost 0) (Some (lit ''2024-01-01T00:00:00Z'')) = d @ lit '' EAT''"
    and c: "csvContent (fixedHost 0) [?r]
      = lit ''Name,QR Code,Registration Date (EAT)'' @ [0x0A]
        @ [0x22] @ lit ''Jo,e'' @ [0x22] @ lit '','' @ [0x22] @ lit ''A'' @ [0x22, 0x22]
        @ lit ''B'' @ [0x22] @ lit '','' @ [0x22] @ d @ lit '' EAT'' @ [0x22]"
    by blast
  then have "d @ lit '' EAT'' = lit ''01/01/2024 03:00:00 EAT''"
    by (simp add: formatCSVTime_2024)
  then have one: "csvContent (fixedHost 0) [?r]
      = lit ''Name,QR Code,Registration Date (EAT)'' @ [0x0A]
        @ [0x22] @ lit ''Jo,e'' @ [0x22] @ lit '','' @ [0x22] @ lit ''A'' @ [0x22, 0x22]
        @ lit ''B'' @ [0x22] @ lit '','' @ [0x22] @ lit ''01/01/2024 03:00:00 EAT'' @ [0x22]"
    using c by (metis append_assoc)
  have row_r: "csv_line (formatCSVTime (fixedHost 0)) ?r
      = [0x22] @ lit ''Jo,e'' @ [0x22] @ lit '','' @ [0x22] @ lit ''A'' @ [0x22, 0x22]
        @ lit ''B'' @ [0x22] @ lit '','' @ [0x22] @ lit ''01/01/2024 03:00:00 EAT'' @ [0x22]"
    unfolding csv_line_def
    by (simp add: formatCSVTime_2024) (simp add: csv_quoted_def lit_def)
  have row_c: "csv_line (formatCSVTime (fixedHost 0)) ?c
      = [0x22] @ lit ''Cy'' @ [0x22] @ lit '','' @ [0x22] @ lit ''C'' @ [0x22] @ lit '',''
        @ [0x22] @ lit ''01/01/2024 03:00:00 EAT'' @ [0x22]"
    unfolding csv_line_def sample_def
    by (simp add: formatCSVTime_2024) (simp add: csv_quoted_def lit_def)
  have row_d: "csv_line (formatCSVTime (fixedHost 0)) ?d
      = [0x22] @ lit ''Di'' @ [0x22] @ lit '','' @ [0x22] @ lit ''D'' @ [0x22] @ lit '',''
        @ [0x22] @ lit ''01/01/2024 03:00:00 EAT'' @ [0x22]"
    unfolding csv_line_def sample_def
    by (simp add: formatCSVTime_2024) (simp add: csv_quoted_def lit_def)
  from inst have "csvContent (fixedHost 0) [?r, ?c, ?d]
      = lit ''Name,QR Code,Registration Date (EAT)'' @ [0x0A]
        @ butlast (concat (map (\<lambda>record. csv_line (formatCSVTime (fixedHost 0)) record @ [0x0A])
            [?r, ?c, ?d]))"
    by blast
  then have three: "csvContent (fixedHost 0) [?r, ?c, ?d]
      = lit ''Name,QR Code,Registration Date (EAT)'' @ [0x0A]
        @ csv_line (formatCSVTime (fixedHost 0)) ?r @ [0x0A]
        @ csv_line (formatCSVTime (fixedHost 0)) ?c @ [0x0A]
        @ csv_line (formatCSVTime (fixedHost 0)) ?d"
    by (simp add: butlast_append)
  show ?thesis
    using ne newDate_2024 one three unfolding row_r row_c row_d by simp
qed

section \<open>The listing\<close>

lemma insert_sorted_insort:
  assumes "newDate h (timestamp x) \<noteq> None" and "\<forall>y\<in>set ys. newDate h (timestamp y) \<noteq> None"
  shows "insert_sorted (compareFn h) x ys = insort_key (age_key h) x ys"
  using assms
proof (induction ys)
  case Nil
  then show ?case by simp
next
  case (Cons y ys)
  then obtain tx ty where "newDate h (timestamp x) = Some tx" "newDate h (timestamp y) = Some ty"
    by auto
  then have "positive (compareFn h x y) \<longleftrightarrow> \<not> age_key h x \<le> age_key h y"
    by (auto simp: positive_def compareFn_def age_key_def)
  then show ?case
    using Cons by simp
qed

lemma array_sort_sort_key:
  assumes "\<forall>r\<in>set xs. newDate h (timestamp r) \<noteq> None"
  shows "array_sort (compareFn h) xs = sort_key (age_key h) xs"
  using assms
proof (induction xs)
  case Nil
  then show ?case by (simp add: array_sort_def)
next
  case (Cons x xs)
  then have ih: "array_sort (compareFn h) xs = sort_key (age_key h) xs"
    by simp
  have "\<forall>y\<in>set (sort_key (age_key h) xs). newDate h (timestamp y) \<noteq> None"
    using Cons.prems by simp
  then show ?case
    using Cons.prems ih insert_sorted_insort [of h x "sort_key (age_key h) xs"]
    by (simp add: array_sort_def)
qed

lemma sorted_not_older:
  assumes "\<forall>r\<in>set xs. newDate h (timestamp r) \<noteq> None" and "sorted (map (age_key h) xs)"
  shows "sorted_wrt (not_older h) xs"
proof -
  have "sorted_wrt (\<lambda>a b. age_key h a \<le> age_key h b) xs"
    using assms(2) by (simp add: sorted_map)
  moreover have "not_older h a b"
    if "a \<in> set xs" "b \<in> set xs" "age_key h a \<le> age_key h b" for a b
    using that assms(1) by (auto simp: not_older_def age_key_def split: option.splits)
  ultimately show ?thesis
    by (rule sorted_wrt_mono_rel [rotated])
qed

lemma created_at_key:
  assumes "newDate h (timestamp r) \<noteq> None"
  shows "created_at h t r \<longleftrightarrow> age_key h r = - t"
  using assms by (auto simp: created_at_def age_key_def)

text \<open>
  C8. \<^verbatim>\<open>loadRecords\<close>, when its read works, shows the stored records, all of
  them and each as often as stored, newest first, and records of the same
  instant in the order they are stored in; \<^verbatim>\<open>loadRecords\<close> of \<^verbatim>\<open>app.js\<close> lists an
  array the same way. When the read fails there is no listing to order: the
  screen is left as it was. The
  timestamps are dates, as the instants of the data model are and as the
  strings that \<^verbatim>\<open>toISOString\<close> prints are, which is all a registration stores
  (\<open>stored_timestamps_iso\<close>): the comparator returns NaN on any other string
  and the order is then left to the engine.
\<close>

theorem listing_newest_first:
  assumes valid: "\<forall>r\<in>set (store s). newDate h (timestamp r) \<noteq> None"
  shows "mset (records (loadRecords h True s)) = mset (store s)
       \<and> sorted_wrt (not_older h) (records (loadRecords h True s))
       \<and> filter (created_at h t) (records (loadRecords h True s)) = filter (created_at h t) (store s)
       \<and> web_loadRecords h (store s) = records (loadRecords h True s)
       \<and> loadRecords h False s = s"
proof -
  let ?out = "records (loadRecords h True s)"
  have out: "?out = sort_key (age_key h) (store s)"
    using array_sort_sort_key [OF valid] by (simp add: loadRecords_def)
  have perm: "mset ?out = mset (store s)"
    by (simp add: out)
  have valid_out: "\<forall>r\<in>set ?out. newDate h (timestamp r) \<noteq> None"
    using valid by (simp add: out)
  have ordered: "sorted_wrt (not_older h) ?out"
    using sorted_not_older [OF valid_out] by (simp add: out)
  have "filter (\<lambda>r. age_key h r = - t) ?out = filter (\<lambda>r. age_key h r = - t) (store s)"
    by (simp add: out sort_key_stable)
  moreover have "filter (created_at h t) xs = filter (\<lambda>r. age_key h r = - t) xs"
    if "\<forall>r\<in>set xs. newDate h (timestamp r) \<noteq> None" for xs
    using that by (intro filter_cong) (simp_all add: created_at_key)
  ultimately have stable: "filter (created_at h t) ?out = filter (created_at h t) (store s)"
    using valid valid_out by simp
  have web: "web_loadRecords h (store s) = ?out"
    by (simp add: web_loadRecords_def loadRecords_def)
  have failed: "loadRecords h False s = s"
    by (simp add: loadRecords_def)
  show ?thesis
    using perm ordered stable web failed by blast
qed


theorem listing_newest_first_witness:
  "newDate (fixedHost 0) (lit ''2024-01-01T00:00:00Z'') = Some 1704067200000
   \<and> newDate (fixedHost 0) (lit ''2024-01-01T21:05:09Z'') = Some 1704143109000
   \<and> records (loadRecords (fixedHost 0) True (launch [sample ''A'' ''Ann'' ''2024-01-01T00:00:00Z'',
        sample ''B'' ''Bob'' ''2024-01-01T21:05:09Z'', sample ''C'' ''Cy'' ''2024-01-01T00:00:00Z'']))
      = [sample ''B'' ''Bob'' ''2024-01-01T21:05:09Z'', sample ''A'' ''Ann'' ''2024-01-01T00:00:00Z'',
         sample ''C'' ''Cy'' ''2024-01-01T00:00:00Z'']
   \<and> sorted_wrt (not_older (fixedHost 0))
        [sample ''B'' ''Bob'' ''2024-01-01T21:05:09Z'', sample ''A'' ''Ann'' ''2024-01-01T00:00:00Z'',
         sample ''C'' ''Cy'' ''2024-01-01T00:00:00Z'']"
proof -
  let ?s = "launch [sample ''A'' ''Ann'' ''2024-01-01T00:00:00Z'',
        sample ''B'' ''Bob'' ''2024-01-01T21:05:09Z'', sample ''C'' ''Cy'' ''2024-01-01T00:00:00Z'']"
  have v: "\<forall>r\<in>set (store ?s). newDate (fixedHost 0) (timestamp r) \<noteq> None"
    by (simp add: launch_def sample_def newDate_2024 newDate_2105)
  have out: "records (loadRecords (fixedHost 0) True ?s)
      = [sample ''B'' ''Bob'' ''2024-01-01T21:05:09Z'', sample ''A'' ''Ann'' ''2024-01-01T00:00:00Z'',
         sample ''C'' ''Cy'' ''2024-01-01T00:00:00Z'']"
    by (simp add: loadRecords_def launch_def array_sort_def compareFn_def positive_def sample_def
        newDate_2024 newDate_2105)
  show ?thesis
    using out listing_newest_first [OF v, of 0] by (simp add: newDate_2024 newDate_2105)
qed

section \<open>One record per code\<close>

text \<open>After events whose reads of the storage all worked, no code is stored twice.\<close>

lemma codes_distinct_while_reads_work:
  assumes "list_all reads_work evs"
  shows "distinct (map qrcode (store (run h (launch []) evs)))"
proof -
  have "app_ok (run h (launch []) evs)"
    using app_ok_launch assms by (rule app_ok_run)
  then show ?thesis
    by (simp add: app_ok_def)
qed

text \<open>
  While every read of the storage works, no code occurs twice in it. On the
  scanner tab, scanning a code that is not stored and pressing Register (with
  a clock in the range of dates) reports success and appends one record with
  the trimmed code. After any further events without a confirmed deletion,
  the storage holds that code exactly once, and scanning it again (up to white
  space around it) and pressing Register gives the duplicate warning and
  leaves the storage as it is, whatever the write would do.
\<close>

lemma codes_unique_while_reads_work:
  fixes h :: host and history evs :: "event list" and data data' :: jsstring and now now' :: int
  defines "s \<equiv> run h (launch []) history"
  defines "s1 \<equiv> run h s [Scan data True, Register now True True True]"
  defines "s2 \<equiv> run h s1 evs"
  assumes reads: "list_all reads_work history" "list_all reads_work evs"
    and scanner: "tab s = ScannerTab"
    and code: "trim data \<noteq> []"
    and first: "trim data \<notin> qrcode ` set (store s)"
    and clock: "timeClip (now + tzOffset h now * 60000 + 10800000) \<noteq> None"
    and no_delete: "\<forall>i ww. Delete i True ww \<notin> set evs"
    and again: "trim data' = trim data"
  shows "distinct (map qrcode (store s)) \<and> distinct (map qrcode (store s2))
       \<and> (\<exists>r. snd (handleRegister h now True True True (fst (handleQRCodeScanned data True s)))
                = Registered r
              \<and> qrcode r = trim data \<and> store s1 = store s @ [r])
       \<and> length (filter (\<lambda>r. qrcode r = trim data) (store s2)) = 1
       \<and> snd (handleRegister h now' True rr ww (fst (handleQRCodeScanned data' True s2))) = Duplicate
       \<and> store (fst (handleRegister h now' True rr ww (fst (handleQRCodeScanned data' True s2))))
           = store s2"
proof -
  have wfs: "app_ok s"
    unfolding s_def using app_ok_launch reads(1) by (rule app_ok_run)
  then have idle: "\<not> isProcessing s"
    by (simp add: app_ok_def)
  let ?a = "fst (handleQRCodeScanned data True s)"
  have qa: "qrValue ?a = trim data" "trim (qrValue ?a) \<noteq> []" "qrValue ?a \<noteq> []"
    using idle code by (simp_all add: scan_qrValue trim_idem)
  have idle_a: "\<not> isProcessing ?a" and tab_a: "tab ?a = ScannerTab"
    using idle scanner by (simp_all add: scan_fields)
  have s1: "s1 = fst (handleRegister h now True True True ?a)"
    unfolding s1_def using scanner qa idle_a tab_a by (simp add: run_def)
  obtain stamp where stamp:
    "toISOString (timeClip (now + tzOffset h now * 60000 + 10800000)) = Inr stamp"
    using clock_ok [OF clock] by blast
  define r where "r = \<lparr>qrcode = qrValue ?a,
    name = or_else (trim (personName ?a)) (lit ''Unnamed''), timestamp = stamp,
    timezoneOffset = None\<rparr>"
  have fresh: "qrValue ?a \<notin> qrcode ` set (store ?a)"
    using first by (simp add: qa scan_fields)
  have reg: "snd (handleRegister h now True True True ?a) = Registered r"
    "store (fst (handleRegister h now True True True ?a)) = store ?a @ [r]"
    using register_new [OF qa(2) fresh stamp] by (simp_all add: r_def)
  have first_time: "\<exists>r. snd (handleRegister h now True True True ?a) = Registered r
      \<and> qrcode r = trim data \<and> store s1 = store s @ [r]"
    using reg by (auto simp: s1 scan_fields r_def qa)
  have wf1: "app_ok s1"
    unfolding s1_def using wfs by (rule app_ok_run) simp
  have in1: "trim data \<in> qrcode ` set (store s1)"
    using reg(2) by (simp add: s1 r_def qa)
  have wf2: "app_ok s2"
    unfolding s2_def using wf1 reads(2) by (rule app_ok_run)
  have in2: "trim data \<in> qrcode ` set (store s2)"
    unfolding s2_def using wf1 in1 reads(2) no_delete by (rule codes_kept_run)
  have d: "distinct (map qrcode (store s))" "distinct (map qrcode (store s2))"
    using wfs wf2 by (simp_all add: app_ok_def)
  have one: "length (filter (\<lambda>r. qrcode r = trim data) (store s2)) = 1"
    using d(2) in2 by (rule count_code)
  let ?b = "fst (handleQRCodeScanned data' True s2)"
  have idle2: "\<not> isProcessing s2"
    using wf2 by (simp add: app_ok_def)
  have code': "trim data' \<noteq> []"
    using code again by simp
  have qb: "qrValue ?b = trim data" "trim (qrValue ?b) \<noteq> []"
    using idle2 code' again by (simp_all add: scan_qrValue trim_idem)
  have "qrValue ?b \<in> qrcode ` set (store ?b)"
    using in2 by (simp add: qb scan_fields)
  then have dup: "snd (handleRegister h now' True rr ww ?b) = Duplicate"
    "store (fst (handleRegister h now' True rr ww ?b)) = store s2"
    using register_duplicate [OF qb(2)] by (simp_all add: scan_fields)
  show ?thesis
    using d first_time one dup by blast
qed

text \<open>
  C1. The code \<^verbatim>\<open>A\<close> is scanned and registered, at 2024-01-01T00:00:00.000Z on
  a host at UTC, and every storage call works. A minute later it is scanned
  again: the scan reads the storage and warns of the duplicate. Register is
  pressed, and the read of its own duplicate check fails: \<^verbatim>\<open>getRecords\<close>
  answers the empty array, Register finds no duplicate and reports success,
  and \<^verbatim>\<open>saveRecord\<close>, whose read works, appends a second record with the code
  \<^verbatim>\<open>A\<close>. When the read of \<^verbatim>\<open>saveRecord\<close> fails too, the storage is overwritten
  with the new record alone.
\<close>

theorem failed_read_stores_code_twice:
  "snd (handleQRCodeScanned (lit ''A'') True
      (run (fixedHost 0) (launch [])
        [Scan (lit ''A'') True, Register 1704067200000 True True True, ClearForm]))
     = ScanDuplicate
   \<and> store (run (fixedHost 0) (launch [])
        [Scan (lit ''A'') True, Register 1704067200000 True True True, ClearForm,
         Scan (lit ''A'') True])
     = [\<lparr>qrcode = lit ''A'', name = lit ''Unnamed'',
         timestamp = lit ''2024-01-01T03:00:00.000Z'', timezoneOffset = None\<rparr>]
   \<and> snd (handleRegister (fixedHost 0) 1704067260000 False True True
        (run (fixedHost 0) (launch [])
          [Scan (lit ''A'') True, Register 1704067200000 True True True, ClearForm,
           Scan (lit ''A'') True]))
     = Registered \<lparr>qrcode = lit ''A'', name = lit ''Unnamed'',
         timestamp = lit ''2024-01-01T03:01:00.000Z'', timezoneOffset = None\<rparr>
   \<and> store (run (fixedHost 0) (launch [])
        [Scan (lit ''A'') True, Register 1704067200000 True True True, ClearForm,
         Scan (lit ''A'') True, Register 1704067260000 False True True])
     = [\<lparr>qrcode = lit ''A'', name = lit ''Unnamed'',
         timestamp = lit ''2024-01-01T03:00:00.000Z'', timezoneOffset = None\<rparr>,
        \<lparr>qrcode = lit ''A'', name = lit ''Unnamed'',
         timestamp = lit ''2024-01-01T03:01:00.000Z'', timezoneOffset = None\<rparr>]
   \<and> store (run (fixedHost 0) (launch [])
        [Scan (lit ''A'') True, Register 1704067200000 True True True, ClearForm,
         Scan (lit ''A'') True, Register 1704067260000 False False True])
     = [\<lparr>qrcode = lit ''A'', name = lit ''Unnamed'',
         timestamp = lit ''2024-01-01T03:01:00.000Z'', timezoneOffset = None\<rparr>]"
proof -
  let ?r = "\<lparr>qrcode = lit ''A'', name = lit ''Unnamed'',
         timestamp = lit ''2024-01-01T03:00:00.000Z'', timezoneOffset = None\<rparr>"
  let ?r' = "\<lparr>qrcode = lit ''A'', name = lit ''Unnamed'',
         timestamp = lit ''2024-01-01T03:01:00.000Z'', timezoneOffset = None\<rparr>"
  let ?evs = "[Scan (lit ''A'') True, Register 1704067200000 True True True, ClearForm]"
  define s where "s = run (fixedHost 0) (launch []) ?evs"
  have s: "s = (launch [])\<lparr>store := [?r]\<rparr>"
    unfolding s_def
    by (simp add: eval_app toISOString_0300 trim_samples lit_samples)
  define s' where "s' = fst (handleQRCodeScanned (lit ''A'') True s)"
  have scan: "snd (handleQRCodeScanned (lit ''A'') True s) = ScanDuplicate"
    unfolding s by (simp add: eval_app trim_samples lit_samples)
  have s': "s' = (launch [])\<lparr>store := [?r], qrValue := lit ''A'', showWarning := True\<rparr>"
    unfolding s'_def s by (simp add: eval_app trim_samples lit_samples)
  have e4: "[Scan (lit ''A'') True, Register 1704067200000 True True True, ClearForm,
       Scan (lit ''A'') True] = ?evs @ [Scan (lit ''A'') True]"
    by simp
  have step4: "step (fixedHost 0) s (Scan (lit ''A'') True) = s'"
    unfolding s'_def by (simp add: s launch_def)
  have run4: "run (fixedHost 0) (launch [])
      [Scan (lit ''A'') True, Register 1704067200000 True True True, ClearForm,
       Scan (lit ''A'') True] = s'"
    unfolding e4 run_snoc s_def [symmetric] by (rule step4)
  have out: "snd (handleRegister (fixedHost 0) 1704067260000 False True True s') = Registered ?r'"
    unfolding s' by (simp add: eval_app toISOString_0301 trim_samples lit_samples)
  have twice: "store (fst (handleRegister (fixedHost 0) 1704067260000 False True True s'))
      = [?r, ?r']"
    unfolding s' by (simp add: eval_app toISOString_0301 trim_samples lit_samples)
  have alone: "store (fst (handleRegister (fixedHost 0) 1704067260000 False False True s'))
      = [?r']"
    unfolding s' by (simp add: eval_app toISOString_0301 trim_samples lit_samples)
  have e5: "[Scan (lit ''A'') True, Register 1704067200000 True True True, ClearForm,
       Scan (lit ''A'') True, Register t a b c]
      = (?evs @ [Scan (lit ''A'') True]) @ [Register t a b c]" for t a b c
    by simp
  have run5: "run (fixedHost 0) (launch [])
      [Scan (lit ''A'') True, Register 1704067200000 True True True, ClearForm,
       Scan (lit ''A'') True, Register t a b c]
      = fst (handleRegister (fixedHost 0) t a b c s')" for t a b c
    unfolding e5 run_snoc s_def [symmetric] step4 by (simp add: s' launch_def lit_samples)
  have kept: "store s' = [?r]"
    by (simp add: s' launch_def)
  show ?thesis
    unfolding run5 run4 s_def [symmetric] using scan kept out twice alone by blast
qed

section \<open>The two duplicate checks\<close>

text \<open>
  For a scanned string that is not blank, the check of the camera's callback
  and the check of Register each answer what \<open>checkDuplicate\<close> answers for
  the string and the storage if their own read works (\<open>rw\<close>), and no duplicate
  if it fails: the two agree whenever their reads have the same fate. The
  callback trims the string for its comparison and leaves the trimmed string
  in \<open>qrValue\<close>, which is what Register compares. A blank string is ignored
  by the callback.
\<close>

lemma duplicate_checks_agree_on_one_read:
  assumes idle: "\<not> isProcessing s" and code: "trim data \<noteq> []" and blank: "trim blank = []"
  shows "(snd (handleQRCodeScanned data rw s) = ScanDuplicate)
           = (rw \<and> checkDuplicate data (store s))
       \<and> (snd (handleRegister h now rw rr ww (fst (handleQRCodeScanned data rw' s))) = Duplicate)
           = (rw \<and> checkDuplicate data (store s))
       \<and> handleQRCodeScanned blank rw s = (s, ScanIgnored)"
proof -
  let ?a = "fst (handleQRCodeScanned data rw' s)"
  have pre: "(snd (handleQRCodeScanned data rw s) = ScanDuplicate)
      = (rw \<and> checkDuplicate data (store s))"
    using scan_outcome [OF idle code] by (simp add: checkDuplicate_def)
  have q: "qrValue ?a = trim data" "trim (qrValue ?a) \<noteq> []" "store ?a = store s"
    using idle code by (simp_all add: scan_qrValue trim_idem scan_fields)
  have reg: "(snd (handleRegister h now rw rr ww ?a) = Duplicate)
      = (rw \<and> checkDuplicate data (store s))"
  proof (cases "rw \<and> checkDuplicate data (store s)")
    case True
    then have "qrValue ?a \<in> qrcode ` set (store ?a)"
      by (simp add: q checkDuplicate_def)
    then show ?thesis
      using True register_duplicate(1) [OF q(2)] by simp
  next
    case False
    then have "qrValue ?a \<notin> qrcode ` set (getRecords rw ?a)"
      by (auto simp: q checkDuplicate_def getRecords_def)
    then show ?thesis
      using False register_not_duplicate by simp
  qed
  have ign: "handleQRCodeScanned blank rw s = (s, ScanIgnored)"
    using blank by (simp add: handleQRCodeScanned_def)
  show ?thesis
    using pre reg ign by blast
qed

text \<open>
  C9. The storage holds a record with the code \<^verbatim>\<open>A\<close>, and \<^verbatim>\<open>A\<close> is scanned. The
  scan reads the storage and warns of a duplicate; the read of Register's
  check fails, \<^verbatim>\<open>getRecords\<close> answers the empty array, and Register does not
  answer Duplicate: it registers the code. The other way round, after a scan
  whose read fails the callback takes the code for new, and Register, whose
  read works, answers Duplicate. \<open>checkDuplicate\<close> says that \<^verbatim>\<open>A\<close> is a
  duplicate.
\<close>

theorem failed_read_splits_duplicate_checks:
  "snd (handleQRCodeScanned (lit ''A'') True (launch [sample ''A'' ''Ann'' ''2024-01-01T00:00:00Z'']))
     = ScanDuplicate
   \<and> snd (handleRegister (fixedHost 0) 1704067200000 False True True
        (fst (handleQRCodeScanned (lit ''A'') True
               (launch [sample ''A'' ''Ann'' ''2024-01-01T00:00:00Z'']))))
     = Registered \<lparr>qrcode = lit ''A'', name = lit ''Unnamed'',
         timestamp = lit ''2024-01-01T03:00:00.000Z'', timezoneOffset = None\<rparr>
   \<and> snd (handleQRCodeScanned (lit ''A'') False (launch [sample ''A'' ''Ann'' ''2024-01-01T00:00:00Z'']))
     = ScanNew
   \<and> snd (handleRegister (fixedHost 0) 1704067200000 True True True
        (fst (handleQRCodeScanned (lit ''A'') False
               (launch [sample ''A'' ''Ann'' ''2024-01-01T00:00:00Z'']))))
     = Duplicate
   \<and> checkDuplicate (lit ''A'') (store (launch [sample ''A'' ''Ann'' ''2024-01-01T00:00:00Z'']))"
proof -
  let ?s = "launch [sample ''A'' ''Ann'' ''2024-01-01T00:00:00Z'']"
  have warned: "snd (handleQRCodeScanned (lit ''A'') True ?s) = ScanDuplicate"
    by (simp add: eval_app sample_def trim_samples lit_samples)
  have registered: "snd (handleRegister (fixedHost 0) 1704067200000 False True True
        (fst (handleQRCodeScanned (lit ''A'') True ?s)))
     = Registered \<lparr>qrcode = lit ''A'', name = lit ''Unnamed'',
         timestamp = lit ''2024-01-01T03:00:00.000Z'', timezoneOffset = None\<rparr>"
    by (simp add: eval_app sample_def toISOString_0300 trim_samples lit_samples)
  have new: "snd (handleQRCodeScanned (lit ''A'') False ?s) = ScanNew"
    by (simp add: eval_app sample_def trim_samples lit_samples)
  have refused: "snd (handleRegister (fixedHost 0) 1704067200000 True True True
        (fst (handleQRCodeScanned (lit ''A'') False ?s))) = Duplicate"
    by (simp add: eval_app sample_def trim_samples lit_samples)
  have dup: "checkDuplicate (lit ''A'') (store ?s)"
    by (simp add: checkDuplicate_def launch_def sample_def trim_samples)
  show ?thesis
    using warned registered new refused dup by blast
qed

section \<open>Names\<close>

text \<open>
  C6. No stored record has the empty name, in either app, whatever has
  happened since the first launch, failed reads and writes of the storage
  included. A registration whose storage calls work stores the trimmed name,
  or \<^verbatim>\<open>Unnamed\<close> when the name is blank; \<^verbatim>\<open>Alice\<close> with spaces around it trims to
  \<^verbatim>\<open>Alice\<close>. Saving an edit whose name is blank changes nothing, in
  \<^verbatim>\<open>saveEdit\<close> and in \<^verbatim>\<open>window.editRecord\<close>.
\<close>

theorem names_never_empty:
  fixes h :: host and history :: "event list" and whistory :: "web_event list"
    and data nm blank :: jsstring and now :: int and x :: app and y :: web
  defines "s \<equiv> run h (launch []) history"
  defines "w \<equiv> web_run (web_launch Map.empty) whistory"
  assumes scanner: "tab s = ScannerTab"
    and code: "trim data \<noteq> []"
    and first: "trim data \<notin> qrcode ` set (store s)"
    and clock: "timeClip (now + tzOffset h now * 60000 + 10800000) \<noteq> None"
    and wfirst: "db w (trim data) = None"
    and wclock: "timeClip now \<noteq> None"
    and blank: "trim blank = []"
  shows "[] \<notin> name ` set (store s) \<and> [] \<notin> name ` ran (db w)
       \<and> (\<exists>r. store (run h s [Scan data True, TypeName nm, Register now True True True]) = store s @ [r]
              \<and> name r = (if trim nm = [] then lit ''Unnamed'' else trim nm))
       \<and> (\<exists>r. db (web_run w [WebScan data, WebTypeName nm, WebSubmit now])
                = (db w)(trim data \<mapsto> r)
              \<and> name r = (if trim nm = [] then lit ''Unnamed'' else trim nm))
       \<and> trim (lit ''  Alice  '') = lit ''Alice''
       \<and> saveEdit ww (x\<lparr>editName := blank\<rparr>) = x\<lparr>editName := blank\<rparr>
       \<and> web_editRecord c (Some blank) y = y"
proof -
  have wfs: "names_ok s"
    unfolding s_def by (intro names_ok_run names_ok_launch)
  have wfw: "web_ok w"
    unfolding w_def by (intro web_ok_run web_ok_launch)
  have stored: "[] \<notin> name ` set (store s)"
    using wfs by (simp add: names_ok_def)
  have "\<forall>r\<in>ran (db w). name r \<noteq> []"
    using wfw by (auto simp: web_ok_def ran_def)
  then have wstored: "[] \<notin> name ` ran (db w)"
    by force
  have idle: "\<not> isProcessing s"
    using wfs by (simp add: names_ok_def)
  let ?a = "(fst (handleQRCodeScanned data True s))\<lparr>personName := nm\<rparr>"
  have qa: "qrValue ?a = trim data" "trim (qrValue ?a) \<noteq> []" "qrValue ?a \<noteq> []"
    "store ?a = store s" "personName ?a = nm" "tab ?a = ScannerTab" "\<not> isProcessing ?a"
    using idle code scanner by (simp_all add: scan_qrValue trim_idem scan_fields)
  have run1: "run h s [Scan data True, TypeName nm, Register now True True True] = fst (handleRegister h now True True True ?a)"
    using scanner qa idle by (simp add: run_def scan_fields)
  obtain stamp where stamp:
    "toISOString (timeClip (now + tzOffset h now * 60000 + 10800000)) = Inr stamp"
    using clock_ok [OF clock] by blast
  have fresh: "qrValue ?a \<notin> qrcode ` set (store ?a)"
    using first qa by simp
  have mobile: "\<exists>r. store (run h s [Scan data True, TypeName nm, Register now True True True]) = store s @ [r]
      \<and> name r = (if trim nm = [] then lit ''Unnamed'' else trim nm)"
    using register_new(2) [OF qa(2) fresh stamp] qa(4,5) by (simp add: run1 or_else_name)
  let ?b = "(onScanSuccess data w)\<lparr>personNameValue := nm\<rparr>"
  have dne: "data \<noteq> []"
    using code by (rule trim_nonempty_arg)
  have qb: "qrcodeValue ?b = trim data" "db ?b = db w" "personNameValue ?b = nm"
    using code dne by (simp_all add: onScanSuccess_def)
  have run2: "web_run w [WebScan data, WebTypeName nm, WebSubmit now]
      = fst (handleFormSubmission now ?b)"
    by (simp add: web_run_def)
  obtain wstamp where wstamp: "toISOString (timeClip now) = Inr wstamp"
    using clock_ok [OF wclock] by blast
  have b1: "trim (qrcodeValue ?b) \<noteq> []" and b2: "db ?b (trim (qrcodeValue ?b)) = None"
    using code wfirst by (simp_all add: qb trim_idem)
  have webreg: "\<exists>r. db (web_run w [WebScan data, WebTypeName nm, WebSubmit now])
      = (db w)(trim data \<mapsto> r) \<and> name r = (if trim nm = [] then lit ''Unnamed'' else trim nm)"
  proof -
    let ?r = "\<lparr>qrcode = trim data, name = or_else (trim nm) (lit ''Unnamed''),
               timestamp = wstamp, timezoneOffset = Some 180\<rparr>"
    have "db (web_run w [WebScan data, WebTypeName nm, WebSubmit now]) = (db w)(trim data \<mapsto> ?r)"
      using submit_new(2) [OF b1 b2 wstamp] by (simp add: run2 qb trim_idem)
    moreover have "name ?r = (if trim nm = [] then lit ''Unnamed'' else trim nm)"
      by (simp add: or_else_name)
    ultimately show ?thesis
      by blast
  qed
  have alice: "trim (lit ''  Alice  '') = lit ''Alice''"
    by (rule trim_samples)
  have edit: "saveEdit ww (x\<lparr>editName := blank\<rparr>) = x\<lparr>editName := blank\<rparr>"
    using blank by (simp add: saveEdit_def split: option.splits)
  have wedit: "web_editRecord c (Some blank) y = y"
    using blank by (simp add: web_editRecord_def split: option.splits)
  show ?thesis
    using stored wstored mobile webreg alice edit wedit by blast
qed


theorem names_never_empty_witness:
  "trim (lit ''  '') = []
   \<and> (\<exists>r. store (run (fixedHost 0) (launch [])
               [Scan (lit ''A'') True, TypeName (lit ''  Alice  ''), Register 1704067200000 True True True]) = [r]
          \<and> name r = lit ''Alice'')
   \<and> (\<exists>r. store (run (fixedHost 0) (launch [])
               [Scan (lit ''A'') True, TypeName (lit ''  ''), Register 1704067200000 True True True]) = [r]
          \<and> name r = lit ''Unnamed'')
   \<and> (\<exists>r. db (web_run (web_launch Map.empty)
               [WebScan (lit ''A''), WebTypeName (lit ''  ''), WebSubmit 1704067200000])
             = [lit ''A'' \<mapsto> r]
          \<and> name r = lit ''Unnamed'')"
proof -
  have a: "tab (run (fixedHost 0) (launch []) []) = ScannerTab"
    by (simp add: run_def launch_def)
  have b: "trim (lit ''A'') \<noteq> []"
    by (simp add: trim_samples lit_samples)
  have c: "trim (lit ''A'') \<notin> qrcode ` set (store (run (fixedHost 0) (launch []) []))"
    by (simp add: run_def launch_def)
  have d: "timeClip (1704067200000 + tzOffset (fixedHost 0) 1704067200000 * 60000 + 10800000) \<noteq> None"
    by (simp add: fixedHost_0 timeClip_def)
  have e: "db (web_run (web_launch Map.empty) []) (trim (lit ''A'')) = None"
    by (simp add: web_run_def web_launch_def)
  have f: "timeClip 1704067200000 \<noteq> None"
    by (simp add: timeClip_def)
  note g = trim_blank
  have s0: "store (launch []) = []" "db (web_launch Map.empty) = Map.empty"
    by (simp_all add: launch_def web_launch_def)
  show ?thesis
    using names_never_empty [OF a b c d e f g, of "lit ''  Alice  ''"]
      names_never_empty [OF a b c d e f g, of "lit ''  ''"]
    by (simp add: s0 run_Nil trim_samples trim_blank lit_samples)
qed

section \<open>Editing a name\<close>

text \<open>
  After a history whose reads all worked, on the records screen of the Expo
  app, saving a blank name for the listed record \<open>i\<close> leaves the storage as
  it is, as does a save whose write fails, and saving the name \<open>n\<close> leaves
  in the storage the same records, except that those with the code of record
  \<open>i\<close> have the name \<open>trim n\<close>: code, timestamp and offset are carried over.
  In the browser app a blank or cancelled answer leaves the object store as it
  is, the answer \<open>n\<close> replaces the record \<open>r\<close> under \<open>code\<close> by \<open>r\<close> with the
  name \<open>trim n\<close>, and a code that is not stored changes nothing.
\<close>

lemma edit_renames_while_reads_work:
  fixes h :: host and history :: "event list" and whistory :: "web_event list"
    and i :: nat and blank n code missing :: jsstring
  defines "s \<equiv> run h (launch []) history"
  defines "w \<equiv> web_run (web_launch Map.empty) whistory"
  defines "c \<equiv> qrcode (records s ! i)"
  assumes reads: "list_all reads_work history"
    and shown: "tab s = RecordsTab" and row: "i < length (records s)"
    and blank: "trim blank = []" and named: "trim n \<noteq> []"
    and found: "db w code = Some r" and absent: "db w missing = None"
  shows "store (run h s [Edit i, TypeEditName blank, Save ww]) = store s
       \<and> store (run h s [Edit i, TypeEditName n, Save False]) = store s
       \<and> mset (store (run h s [Edit i, TypeEditName n, Save True]))
           = image_mset (\<lambda>r. if qrcode r = c then r\<lparr>name := trim n\<rparr> else r) (mset (store s))
       \<and> db (web_editRecord code (Some blank) w) = db w
       \<and> db (web_editRecord code None w) = db w
       \<and> db (web_editRecord code (Some n) w) = (db w)(code \<mapsto> r\<lparr>name := trim n\<rparr>)
       \<and> web_editRecord missing answer w = w"
proof -
  have wfs: "app_ok s"
    unfolding s_def using app_ok_launch reads by (rule app_ok_run)
  have sync: "mset (records s) = mset (store s)"
    using wfs shown by (simp add: app_ok_def)
  have wfw: "web_ok w"
    unfolding w_def by (intro web_ok_run web_ok_launch)
  have rejected: "store (run h s [Edit i, TypeEditName blank, Save ww]) = store s"
    using shown row blank by (simp add: run_def editRecord_def saveEdit_def)
  have failed: "store (run h s [Edit i, TypeEditName n, Save False]) = store s"
    using shown row by (simp add: run_def editRecord_def saveEdit_def)
  have "store (run h s [Edit i, TypeEditName n, Save True])
      = map (\<lambda>r. if qrcode r = c then r\<lparr>name := trim n\<rparr> else r) (records s)"
    using shown row named by (simp add: run_def editRecord_def saveEdit_def Let_def c_def)
  then have renamed: "mset (store (run h s [Edit i, TypeEditName n, Save True]))
      = image_mset (\<lambda>r. if qrcode r = c then r\<lparr>name := trim n\<rparr> else r) (mset (store s))"
    using sync by (simp only: mset_map)
  have web: "db (web_editRecord code (Some blank) w) = db w"
    "db (web_editRecord code None w) = db w"
    "db (web_editRecord code (Some n) w) = (db w)(code \<mapsto> r\<lparr>name := trim n\<rparr>)"
    using edit_found [OF wfw found] blank named by simp_all
  have none: "web_editRecord missing answer w = w"
    using absent by (rule edit_missing)
  show ?thesis
    using rejected failed renamed web none by blast
qed

text \<open>
  C5. The code \<^verbatim>\<open>A\<close> is registered and the records screen is opened: it lists
  \<^verbatim>\<open>A\<close>. Back on the scanner the code \<^verbatim>\<open>B\<close> is registered, a minute later, and
  the records screen is opened again; this time the read of \<^verbatim>\<open>loadRecords\<close>
  fails, and the screen keeps the list it had: \<^verbatim>\<open>A\<close> alone, while the storage
  holds \<^verbatim>\<open>A\<close> and \<^verbatim>\<open>B\<close>. The name of \<^verbatim>\<open>A\<close> is edited to \<^verbatim>\<open>Al\<close> and saved:
  \<^verbatim>\<open>saveEdit\<close> writes the screen's list back, and the record of \<^verbatim>\<open>B\<close> is gone
  from the storage. So is it after a confirmed deletion of nothing but \<^verbatim>\<open>A\<close>:
  the storage is left empty.
\<close>

theorem stale_listing_edit_drops_record:
  "store (run (fixedHost 0) (launch [])
      [Scan (lit ''A'') True, Register 1704067200000 True True True, OpenRecords True,
       OpenScanner, Scan (lit ''B'') True, Register 1704067260000 True True True,
       OpenRecords False])
     = [\<lparr>qrcode = lit ''A'', name = lit ''Unnamed'',
         timestamp = lit ''2024-01-01T03:00:00.000Z'', timezoneOffset = None\<rparr>,
        \<lparr>qrcode = lit ''B'', name = lit ''Unnamed'',
         timestamp = lit ''2024-01-01T03:01:00.000Z'', timezoneOffset = None\<rparr>]
   \<and> records (run (fixedHost 0) (launch [])
      [Scan (lit ''A'') True, Register 1704067200000 True True True, OpenRecords True,
       OpenScanner, Scan (lit ''B'') True, Register 1704067260000 True True True,
       OpenRecords False])
     = [\<lparr>qrcode = lit ''A'', name = lit ''Unnamed'',
         timestamp = lit ''2024-01-01T03:00:00.000Z'', timezoneOffset = None\<rparr>]
   \<and> store (run (fixedHost 0) (launch [])
      [Scan (lit ''A'') True, Register 1704067200000 True True True, OpenRecords True,
       OpenScanner, Scan (lit ''B'') True, Register 1704067260000 True True True,
       OpenRecords False, Edit 0, TypeEditName (lit ''Al''), Save True])
     = [\<lparr>qrcode = lit ''A'', name = lit ''Al'',
         timestamp = lit ''2024-01-01T03:00:00.000Z'', timezoneOffset = None\<rparr>]
   \<and> store (run (fixedHost 0) (launch [])
      [Scan (lit ''A'') True, Register 1704067200000 True True True, OpenRecords True,
       OpenScanner, Scan (lit ''B'') True, Register 1704067260000 True True True,
       OpenRecords False, Delete 0 True True])
     = []"
proof -
  let ?a = "\<lparr>qrcode = lit ''A'', name = lit ''Unnamed'',
         timestamp = lit ''2024-01-01T03:00:00.000Z'', timezoneOffset = None\<rparr>"
  let ?b = "\<lparr>qrcode = lit ''B'', name = lit ''Unnamed'',
         timestamp = lit ''2024-01-01T03:01:00.000Z'', timezoneOffset = None\<rparr>"
  let ?first = "[Scan (lit ''A'') True, Register 1704067200000 True True True, OpenRecords True,
       OpenScanner]"
  let ?second = "[Scan (lit ''B'') True, Register 1704067260000 True True True,
       OpenRecords False]"
  define s1 where "s1 = run (fixedHost 0) (launch []) ?first"
  define s2 where "s2 = run (fixedHost 0) s1 ?second"
  have s1: "s1 = (launch [])\<lparr>store := [?a], records := [?a]\<rparr>"
    unfolding s1_def
    by (simp add: eval_app toISOString_0300 trim_samples lit_samples)
  have s2: "s2 = (launch [])\<lparr>store := [?a, ?b], records := [?a], tab := RecordsTab,
      qrValue := lit ''B'', isSuccess := True\<rparr>"
    unfolding s2_def s1
    by (simp add: eval_app toISOString_0301 code_samples trim_samples)
  have split: "run (fixedHost 0) (launch []) (?first @ ?second @ evs) = run (fixedHost 0) s2 evs"
    for evs
    by (simp only: run_def foldl_append s1_def s2_def)
  have stale: "store s2 = [?a, ?b]" "records s2 = [?a]"
    by (simp_all add: s2 launch_def)
  have edited: "store (run (fixedHost 0) s2 [Edit 0, TypeEditName (lit ''Al''), Save True])
      = [?a\<lparr>name := lit ''Al''\<rparr>]"
    unfolding s2 by (simp add: eval_app trim_samples lit_samples)
  have deleted: "store (run (fixedHost 0) s2 [Delete 0 True True]) = []"
    unfolding s2 by (simp add: eval_app)
  have nil: "run (fixedHost 0) s2 [] = s2"
    by (simp add: run_def)
  show ?thesis
    using stale edited deleted split [of "[]"] split [of "[Edit 0, TypeEditName (lit ''Al''), Save True]"]
      split [of "[Delete 0 True True]"]
    by (simp add: nil)
qed

section \<open>The timestamp a registration stores\<close>

text \<open>
  C2. At the clock reading 1704067200000 ms (2024-01-01T00:00:00.000Z) on a
  host at UTC, \<^verbatim>\<open>handleRegister\<close> stores the timestamp
  \<^verbatim>\<open>2024-01-01T03:00:00.000Z\<close>: the instant shifted by the host's offset and
  three hours, not the instant (which \<^verbatim>\<open>toISOString\<close> prints as
  \<^verbatim>\<open>2024-01-01T00:00:00.000Z\<close>, and which \<^verbatim>\<open>handleFormSubmission\<close> of \<^verbatim>\<open>app.js\<close>
  stores). The storage calls all work here. Once stored, a timestamp stays
  (\<open>timestamp_kept_step\<close>, for the events whose reads work).
\<close>

theorem register_stores_shifted_instant:
  "snd (handleRegister (fixedHost 0) 1704067200000 True True True
          (fst (handleQRCodeScanned (lit ''A'') True (launch []))))
     = Registered \<lparr>qrcode = lit ''A'', name = lit ''Unnamed'',
         timestamp = lit ''2024-01-01T03:00:00.000Z'', timezoneOffset = None\<rparr>
   \<and> toISOString (timeClip 1704067200000) = Inr (lit ''2024-01-01T00:00:00.000Z'')
   \<and> snd (handleFormSubmission 1704067200000 (onScanSuccess (lit ''A'') (web_launch Map.empty)))
     = SubmitRegistered \<lparr>qrcode = lit ''A'', name = lit ''Unnamed'',
         timestamp = lit ''2024-01-01T00:00:00.000Z'', timezoneOffset = Some 180\<rparr>"
proof -
  have mobile: "snd (handleRegister (fixedHost 0) 1704067200000 True True True
          (fst (handleQRCodeScanned (lit ''A'') True (launch []))))
     = Registered \<lparr>qrcode = lit ''A'', name = lit ''Unnamed'',
         timestamp = lit ''2024-01-01T03:00:00.000Z'', timezoneOffset = None\<rparr>"
    by (simp add: eval_app toISOString_0300 trim_samples lit_samples)
  have utc: "toISOString (timeClip 1704067200000) = Inr (lit ''2024-01-01T00:00:00.000Z'')"
    by (simp add: timeClip_def toISOString_0000)
  have web: "snd (handleFormSubmission 1704067200000 (onScanSuccess (lit ''A'') (web_launch Map.empty)))
     = SubmitRegistered \<lparr>qrcode = lit ''A'', name = lit ''Unnamed'',
         timestamp = lit ''2024-01-01T00:00:00.000Z'', timezoneOffset = Some 180\<rparr>"
    by (simp add: eval_web toISOString_0000 trim_samples lit_samples)
  show ?thesis
    using mobile utc web by blast
qed

end
